theory Spec2Isabelle
  imports Main "HOL-Library.Multiset" "HOL-Library.Word"
begin

section \<open>JavaScript values\<close>

text \<open>
  The values the School Data Manager stores and exchanges are the values of JSON together
  with \<open>undefined\<close>. Numbers are the integers from \<open>- 2 ^ 53\<close> to \<open>2 ^ 53 - 1\<close>, each of which
  a number of the language holds exactly and prints in plain decimal; they are kept as
  words of 54 bits that are read as signed. Strings are sequences of the code units
  \<open>0x00\<close> to \<open>0xFF\<close>, the characters of Latin-1, with the case mapping and the white space
  that the language gives these characters. An object
  is the list of its own properties in the order of their creation, which is the order of
  their enumeration when no name is an array index. Reading a property that an object does
  not own gives \<open>undefined\<close>: the names of fields are taken to differ from the names of the
  members that every object inherits, as all names the program reads do.
\<close>

datatype jsval =
    JUndefined
  | JNull
  | JBool bool
  | JNum "54 word"
  | JStr string
  | JArr "jsval list"
  | JObj "(string \<times> jsval) list"

type_synonym jsobj = "(string \<times> jsval) list"

text \<open>What the program throws: the two runtime errors of the language that its code can
  raise, and \<open>new Error('Invalid data')\<close> of \<open>validateAndLoadData\<close>.\<close>

datatype error = TypeError | SyntaxError | InvalidData

fun typeof :: "jsval \<Rightarrow> string" where
  "typeof JUndefined = ''undefined''"
| "typeof JNull = ''object''"
| "typeof (JBool b) = ''boolean''"
| "typeof (JNum n) = ''number''"
| "typeof (JStr s) = ''string''"
| "typeof (JArr xs) = ''object''"
| "typeof (JObj kvs) = ''object''"

text \<open>\<open>!v\<close>: the values that convert to \<open>false\<close>.\<close>

fun falsy :: "jsval \<Rightarrow> bool" where
  "falsy JUndefined = True"
| "falsy JNull = True"
| "falsy (JBool b) = (\<not> b)"
| "falsy (JNum n) = (n = 0)"
| "falsy (JStr s) = (s = [])"
| "falsy (JArr xs) = False"
| "falsy (JObj kvs) = False"

text \<open>\<open>v ?? d\<close>\<close>

fun nullish :: "jsval \<Rightarrow> bool" where
  "nullish JUndefined = True"
| "nullish JNull = True"
| "nullish v = False"

fun is_object :: "jsval \<Rightarrow> bool" where
  "is_object (JObj kvs) = True"
| "is_object v = False"

text \<open>\<open>o[k]\<close> on the own properties of an object: a missing property reads as
  \<open>undefined\<close>.\<close>

definition own :: "jsobj \<Rightarrow> string \<Rightarrow> jsval" where
  "own kvs k = (case map_of kvs k of None \<Rightarrow> JUndefined | Some v \<Rightarrow> v)"

text \<open>The names of the members of \<open>Object.prototype\<close>, which every object inherits.\<close>

definition object_prototype_names :: "string list" where
  "object_prototype_names =
     [''constructor'', ''__defineGetter__'', ''__defineSetter__'', ''hasOwnProperty'',
      ''__lookupGetter__'', ''__lookupSetter__'', ''isPrototypeOf'', ''propertyIsEnumerable'',
      ''toString'', ''valueOf'', ''__proto__'', ''toLocaleString'']"

text \<open>A name that no object inherits: reading it from an object gives the own property of
  that name, or \<open>undefined\<close>.\<close>

definition own_name :: "string \<Rightarrow> bool" where
  "own_name k \<longleftrightarrow> k \<notin> set object_prototype_names"

text \<open>\<open>v.k\<close> for a field name \<open>k\<close>, a name that no object inherits and that is neither
  an array index nor \<open>length\<close>: reading a property of \<open>undefined\<close> or \<open>null\<close> throws; a
  primitive or an array has no property of such a name.\<close>

fun get_prop :: "jsval \<Rightarrow> string \<Rightarrow> error + jsval" where
  "get_prop JUndefined k = Inl TypeError"
| "get_prop JNull k = Inl TypeError"
| "get_prop (JObj kvs) k = Inr (own kvs k)"
| "get_prop v k = Inr JUndefined"

text \<open>The total reading of a field used to state properties of records.\<close>

fun field :: "jsval \<Rightarrow> string \<Rightarrow> jsval" where
  "field (JObj kvs) k = own kvs k"
| "field v k = JUndefined"

text \<open>\<open>o[k] = v\<close>: an existing property keeps its place, a new one is added last.\<close>

fun set_prop :: "jsobj \<Rightarrow> string \<Rightarrow> jsval \<Rightarrow> jsobj" where
  "set_prop [] k v = [(k, v)]"
| "set_prop ((k', v') # kvs) k v =
     (if k' = k then (k, v) # kvs else (k', v') # set_prop kvs k v)"

text \<open>The decimal numeral of a natural number, as the conversion of a number to a string
  writes it.\<close>

fun digit_char :: "nat \<Rightarrow> char" where
  "digit_char n = ''0123456789'' ! (n mod 10)"

fun nat_digits :: "nat \<Rightarrow> string" where
  "nat_digits n =
     (if n < 10 then [digit_char n] else nat_digits (n div 10) @ [digit_char n])"

declare nat_digits.simps [simp del]

text \<open>\<open>{...v}\<close>: the own enumerable properties of a value. An array and a string spread
  into their indexed elements, the other primitives into nothing.\<close>

fun spread :: "jsval \<Rightarrow> jsobj" where
  "spread (JObj kvs) = kvs"
| "spread (JArr xs) = zip (map nat_digits [0..<length xs]) xs"
| "spread (JStr s) = zip (map nat_digits [0..<length s]) (map (\<lambda>c. JStr [c]) s)"
| "spread v = []"

text \<open>\<open>{...a, ...b}\<close> adds the properties of \<open>b\<close> to those of \<open>a\<close>, in the order of
  \<open>b\<close>.\<close>

definition assign_all :: "jsobj \<Rightarrow> jsobj \<Rightarrow> jsobj" where
  "assign_all a b = foldl (\<lambda>acc (k, v). set_prop acc k v) a b"

subsection \<open>Array methods with callbacks that may throw\<close>

fun array_filter :: "('a \<Rightarrow> error + bool) \<Rightarrow> 'a list \<Rightarrow> error + 'a list" where
  "array_filter p [] = Inr []"
| "array_filter p (x # xs) =
     (case p x of
        Inl e \<Rightarrow> Inl e
      | Inr b \<Rightarrow>
          (case array_filter p xs of
             Inl e \<Rightarrow> Inl e
           | Inr ys \<Rightarrow> Inr (if b then x # ys else ys)))"

fun array_map :: "('a \<Rightarrow> error + 'b) \<Rightarrow> 'a list \<Rightarrow> error + 'b list" where
  "array_map f [] = Inr []"
| "array_map f (x # xs) =
     (case f x of
        Inl e \<Rightarrow> Inl e
      | Inr y \<Rightarrow>
          (case array_map f xs of
             Inl e \<Rightarrow> Inl e
           | Inr ys \<Rightarrow> Inr (y # ys)))"

text \<open>\<open>findIndex\<close> stops at the first element the callback accepts; \<open>None\<close> stands for
  the result \<open>-1\<close>.\<close>

fun array_findIndex :: "('a \<Rightarrow> error + bool) \<Rightarrow> 'a list \<Rightarrow> error + nat option" where
  "array_findIndex p [] = Inr None"
| "array_findIndex p (x # xs) =
     (case p x of
        Inl e \<Rightarrow> Inl e
      | Inr True \<Rightarrow> Inr (Some 0)
      | Inr False \<Rightarrow>
          (case array_findIndex p xs of
             Inl e \<Rightarrow> Inl e
           | Inr None \<Rightarrow> Inr None
           | Inr (Some i) \<Rightarrow> Inr (Some (Suc i))))"

text \<open>\<open>find\<close> returns the first accepted element, \<open>None\<close> standing for \<open>undefined\<close>.\<close>

fun array_find :: "('a \<Rightarrow> error + bool) \<Rightarrow> 'a list \<Rightarrow> error + 'a option" where
  "array_find p [] = Inr None"
| "array_find p (x # xs) =
     (case p x of
        Inl e \<Rightarrow> Inl e
      | Inr True \<Rightarrow> Inr (Some x)
      | Inr False \<Rightarrow> array_find p xs)"

text \<open>The callbacks \<open>r => r.k === id\<close> and \<open>r => r.k !== id\<close>, for a string \<open>id\<close>.\<close>

definition prop_is :: "string \<Rightarrow> string \<Rightarrow> jsval \<Rightarrow> error + bool" where
  "prop_is k ident r = (case get_prop r k of Inl e \<Rightarrow> Inl e | Inr v \<Rightarrow> Inr (v = JStr ident))"

definition prop_is_not :: "string \<Rightarrow> string \<Rightarrow> jsval \<Rightarrow> error + bool" where
  "prop_is_not k ident r = (case get_prop r k of Inl e \<Rightarrow> Inl e | Inr v \<Rightarrow> Inr (v \<noteq> JStr ident))"

section \<open>JSON\<close>

text \<open>
  A JSON text is identified with the value \<open>JSON.parse\<close> reads from it. \<open>jsonify\<close> is the
  document \<open>JSON.stringify\<close> writes for a value inside an array or an object: a property
  whose value is \<open>undefined\<close> is left out, an array element \<open>undefined\<close> becomes \<open>null\<close>.
  At top level \<open>JSON.stringify(undefined)\<close> is \<open>undefined\<close>, which \<open>JSON.parse\<close> rejects.
\<close>

fun jsonify :: "jsval \<Rightarrow> jsval" where
  "jsonify JUndefined = JNull"
| "jsonify (JArr xs) = JArr (map jsonify xs)"
| "jsonify (JObj kvs) =
     JObj (map (\<lambda>(k, v). (k, jsonify v)) (filter (\<lambda>(k, v). v \<noteq> JUndefined) kvs))"
| "jsonify v = v"

definition JSON_stringify :: "jsval \<Rightarrow> jsval option" where
  "JSON_stringify v = (if v = JUndefined then None else Some (jsonify v))"

definition deepClone :: "jsval \<Rightarrow> error + jsval" where
  "deepClone v = (case JSON_stringify v of None \<Rightarrow> Inl SyntaxError | Some doc \<Rightarrow> Inr doc)"

text \<open>The values \<open>JSON.parse\<close> returns: no \<open>undefined\<close> anywhere.\<close>

fun json_clean :: "jsval \<Rightarrow> bool" where
  "json_clean JUndefined = False"
| "json_clean (JArr xs) = list_all json_clean xs"
| "json_clean (JObj kvs) = list_all (\<lambda>(k, v). json_clean v) kvs"
| "json_clean v = True"

section \<open>Application state and persistent store\<close>

datatype entity = Students | Teachers | Classes | Enrollments

record snapshot =
  version :: jsval
  students :: jsval
  teachers :: jsval
  classes :: jsval
  enrollments :: jsval
  theme :: jsval

text \<open>\<open>AppState.initial()\<close>\<close>

definition initial :: snapshot where
  "initial = \<lparr> version = JStr ''1.0.0'', students = JArr [], teachers = JArr [],
               classes = JArr [], enrollments = JArr [], theme = JStr ''dark'' \<rparr>"

text \<open>The state object as a value, for \<open>JSON.stringify(state)\<close>.\<close>

definition snapshot_obj :: "snapshot \<Rightarrow> jsval" where
  "snapshot_obj s = JObj [(''version'', version s), (''students'', students s),
     (''teachers'', teachers s), (''classes'', classes s),
     (''enrollments'', enrollments s), (''theme'', theme s)]"

text \<open>
  The world of the program: \<open>AppState.state\<close>, the item of \<open>localStorage\<close> under the
  storage key, and the sequence of documents \<open>StorageService.save\<close> has written, oldest
  first.
\<close>

record world =
  state :: snapshot
  storage :: "jsval option"
  writes :: "jsval list"

text \<open>\<open>StorageService.save(AppState.state)\<close>: the store accepts every write; the flash
  of the "Saved" indicator is not part of the model.\<close>

definition save :: "world \<Rightarrow> world" where
  "save w = (let doc = jsonify (snapshot_obj (state w))
             in w\<lparr> storage := Some doc, writes := writes w @ [doc] \<rparr>)"

text \<open>\<open>AppState.state[entity]\<close> and \<open>AppState.state[entity] = v\<close>\<close>

fun collection :: "entity \<Rightarrow> snapshot \<Rightarrow> jsval" where
  "collection Students s = students s"
| "collection Teachers s = teachers s"
| "collection Classes s = classes s"
| "collection Enrollments s = enrollments s"

fun set_collection :: "entity \<Rightarrow> jsval \<Rightarrow> snapshot \<Rightarrow> snapshot" where
  "set_collection Students v s = s\<lparr> students := v \<rparr>"
| "set_collection Teachers v s = s\<lparr> teachers := v \<rparr>"
| "set_collection Classes v s = s\<lparr> classes := v \<rparr>"
| "set_collection Enrollments v s = s\<lparr> enrollments := v \<rparr>"

section \<open>Entity repository\<close>

text \<open>
  An operation returns the error it threw, if any, and the world it leaves behind.
  A method of arrays (\<open>push\<close>, \<open>findIndex\<close>, \<open>filter\<close>, \<open>map\<close>) called on a value that is
  not an array throws \<open>TypeError\<close>.
\<close>

definition Data_add :: "entity \<Rightarrow> jsval \<Rightarrow> world \<Rightarrow> error option \<times> world" where
  "Data_add entity item w =
     (case collection entity (state w) of
        JArr rs \<Rightarrow>
          (None, save (w\<lparr> state := set_collection entity (JArr (rs @ [item])) (state w) \<rparr>))
      | _ \<Rightarrow> (Some TypeError, w))"

definition Data_update :: "entity \<Rightarrow> string \<Rightarrow> jsobj \<Rightarrow> world \<Rightarrow> error option \<times> world" where
  "Data_update entity ident upd w =
     (case collection entity (state w) of
        JArr rs \<Rightarrow>
          (case array_findIndex (prop_is ''id'' ident) rs of
             Inl e \<Rightarrow> (Some e, w)
           | Inr None \<Rightarrow> (None, w)
           | Inr (Some idx) \<Rightarrow>
               (None, save (w\<lparr> state := set_collection entity
                  (JArr (rs[idx := JObj (assign_all (spread (rs ! idx)) upd)])) (state w) \<rparr>)))
      | _ \<Rightarrow> (Some TypeError, w))"

text \<open>The three cascades of \<open>Data.remove\<close>, applied to the state after the primary
  removal.\<close>

definition clear_teacher :: "string \<Rightarrow> jsval \<Rightarrow> error + jsval" where
  "clear_teacher ident c =
     (case get_prop c ''teacherId'' of
        Inl e \<Rightarrow> Inl e
      | Inr v \<Rightarrow>
          Inr (if v = JStr ident then JObj (set_prop (spread c) ''teacherId'' (JStr '''')) else c))"

fun cascade :: "entity \<Rightarrow> string \<Rightarrow> snapshot \<Rightarrow> error + snapshot" where
  "cascade Teachers ident s =
     (case classes s of
        JArr cs \<Rightarrow>
          (case array_map (clear_teacher ident) cs of
             Inl e \<Rightarrow> Inl e
           | Inr cs' \<Rightarrow> Inr (s\<lparr> classes := JArr cs' \<rparr>))
      | _ \<Rightarrow> Inl TypeError)"
| "cascade Students ident s =
     (case enrollments s of
        JArr es \<Rightarrow>
          (case array_filter (prop_is_not ''studentId'' ident) es of
             Inl e \<Rightarrow> Inl e
           | Inr es' \<Rightarrow> Inr (s\<lparr> enrollments := JArr es' \<rparr>))
      | _ \<Rightarrow> Inl TypeError)"
| "cascade Classes ident s =
     (case enrollments s of
        JArr es \<Rightarrow>
          (case array_filter (prop_is_not ''classId'' ident) es of
             Inl e \<Rightarrow> Inl e
           | Inr es' \<Rightarrow> Inr (s\<lparr> enrollments := JArr es' \<rparr>))
      | _ \<Rightarrow> Inl TypeError)"
| "cascade Enrollments ident s = Inr s"

definition Data_remove :: "entity \<Rightarrow> string \<Rightarrow> world \<Rightarrow> error option \<times> world" where
  "Data_remove entity ident w =
     (case collection entity (state w) of
        JArr rs \<Rightarrow>
          (case array_filter (prop_is_not ''id'' ident) rs of
             Inl e \<Rightarrow> (Some e, w)
           | Inr next \<Rightarrow>
               (let w1 = w\<lparr> state := set_collection entity (JArr next) (state w) \<rparr>
                in case cascade entity ident (state w1) of
                     Inl e \<Rightarrow> (Some e, w1)
                   | Inr s2 \<Rightarrow> (None, save (w1\<lparr> state := s2 \<rparr>))))
      | _ \<Rightarrow> (Some TypeError, w))"

section \<open>Well-formed snapshots and referential integrity\<close>

text \<open>The elements of a collection; a value that is not an array has none.\<close>

fun elems :: "jsval \<Rightarrow> jsval list" where
  "elems (JArr xs) = xs"
| "elems v = []"

text \<open>A collection of the data model: an array of records.\<close>

fun records :: "jsval \<Rightarrow> bool" where
  "records (JArr xs) = list_all is_object xs"
| "records v = False"

definition well_formed :: "snapshot \<Rightarrow> bool" where
  "well_formed s \<longleftrightarrow>
     records (students s) \<and> records (teachers s) \<and> records (classes s) \<and>
     records (enrollments s)"

text \<open>What the cascade of a removed teacher does to one class, as a total function on
  records.\<close>

definition unassign :: "string \<Rightarrow> jsval \<Rightarrow> jsval" where
  "unassign i c = (if field c ''teacherId'' = JStr i
                   then JObj (set_prop (spread c) ''teacherId'' (JStr '''')) else c)"

text \<open>A value is the id of a record of the collection: it is a string and some record has
  it as its \<open>id\<close>. Record \<open>e\<close> refers through field \<open>k\<close> to a record of the collection
  when the value of the field is such an id.\<close>

definition id_in :: "jsval \<Rightarrow> jsval \<Rightarrow> bool" where
  "id_in v coll =
     (case v of JStr x \<Rightarrow> list_ex (\<lambda>r. field r ''id'' = JStr x) (elems coll) | _ \<Rightarrow> False)"

definition refers :: "jsval \<Rightarrow> string \<Rightarrow> jsval \<Rightarrow> bool" where
  "refers e k coll = id_in (field e k) coll"

definition ref_integrity :: "snapshot \<Rightarrow> bool" where
  "ref_integrity s \<longleftrightarrow>
     list_all (\<lambda>e. refers e ''studentId'' (students s) \<and> refers e ''classId'' (classes s))
       (elems (enrollments s))"

text \<open>The index of the first record with the given id, the length of the list if there is
  none.\<close>

definition first_index :: "string \<Rightarrow> jsval list \<Rightarrow> nat" where
  "first_index i rs = length (takeWhile (\<lambda>r. field r ''id'' \<noteq> JStr i) rs)"

text \<open>Between \<open>w\<close> and \<open>w'\<close> the store was written exactly once, with the document of the
  snapshot that \<open>w'\<close> holds in memory.\<close>

definition saved_once :: "world \<Rightarrow> world \<Rightarrow> bool" where
  "saved_once w w' \<longleftrightarrow>
     writes w' = writes w @ [jsonify (snapshot_obj (state w'))] \<and>
     storage w' = Some (jsonify (snapshot_obj (state w')))"

subsection \<open>The seeded scenario\<close>

text \<open>Teacher T1 with id \<open>t1\<close>, class C1 with code MATH101 taught by T1, student S1 and
  enrollment E1 of S1 in C1.\<close>

definition T1 :: jsval where
  "T1 = JObj [(''id'', JStr ''t1''), (''firstName'', JStr ''Alice''),
     (''lastName'', JStr ''Nguyen''), (''email'', JStr ''alice.nguyen@example.edu''),
     (''department'', JStr ''Math'')]"

definition C1 :: jsval where
  "C1 = JObj [(''id'', JStr ''c1''), (''name'', JStr ''Algebra I''),
     (''code'', JStr ''MATH101''), (''teacherId'', JStr ''t1''),
     (''schedule'', JStr ''Mon/Wed/Fri 9:00-9:50'')]"

definition S1 :: jsval where
  "S1 = JObj [(''id'', JStr ''s1''), (''firstName'', JStr ''Liam''),
     (''lastName'', JStr ''Johnson''), (''grade'', JStr ''1''),
     (''dob'', JStr ''2010-01-15''), (''email'', JStr '''')]"

definition E1 :: jsval where
  "E1 = JObj [(''id'', JStr ''e1''), (''studentId'', JStr ''s1''),
     (''classId'', JStr ''c1''), (''status'', JStr ''enrolled'')]"

definition seeded :: world where
  "seeded = \<lparr> state = initial \<lparr> students := JArr [S1], teachers := JArr [T1],
                                classes := JArr [C1], enrollments := JArr [E1] \<rparr>,
              storage = None, writes = [] \<rparr>"

text \<open>An enrollment of a student that does not exist.\<close>

definition E2 :: jsval where
  "E2 = JObj [(''id'', JStr ''e2''), (''studentId'', JStr ''ghost''),
     (''classId'', JStr ''c1''), (''status'', JStr ''enrolled'')]"

section \<open>Import and restore\<close>

text \<open>The top-level keys that \<open>validateAndLoadData\<close> recognises, in the order of its loop.\<close>

datatype top_key = K_students | K_teachers | K_classes | K_enrollments | K_theme

fun key_name :: "top_key \<Rightarrow> string" where
  "key_name K_students = ''students''"
| "key_name K_teachers = ''teachers''"
| "key_name K_classes = ''classes''"
| "key_name K_enrollments = ''enrollments''"
| "key_name K_theme = ''theme''"

definition recognized_keys :: "top_key list" where
  "recognized_keys = [K_students, K_teachers, K_classes, K_enrollments, K_theme]"

text \<open>\<open>next[key]\<close> and \<open>next[key] = v\<close>\<close>

fun top_field :: "top_key \<Rightarrow> snapshot \<Rightarrow> jsval" where
  "top_field K_students s = students s"
| "top_field K_teachers s = teachers s"
| "top_field K_classes s = classes s"
| "top_field K_enrollments s = enrollments s"
| "top_field K_theme s = theme s"

fun assign_key :: "top_key \<Rightarrow> jsval \<Rightarrow> snapshot \<Rightarrow> snapshot" where
  "assign_key K_students v s = s\<lparr> students := v \<rparr>"
| "assign_key K_teachers v s = s\<lparr> teachers := v \<rparr>"
| "assign_key K_classes v s = s\<lparr> classes := v \<rparr>"
| "assign_key K_enrollments v s = s\<lparr> enrollments := v \<rparr>"
| "assign_key K_theme v s = s\<lparr> theme := v \<rparr>"

text \<open>The names of the own properties of a value that is an object.\<close>

fun own_keys :: "jsval \<Rightarrow> string list" where
  "own_keys (JObj kvs) = map fst kvs"
| "own_keys v = []"

text \<open>\<open>k in v\<close> for a field name \<open>k\<close>: an object has the property when it is one of its
  own, an array has no property of such a name, and \<open>in\<close> throws on a primitive.\<close>

fun has_property :: "string \<Rightarrow> jsval \<Rightarrow> error + bool" where
  "has_property k (JObj kvs) = Inr (k \<in> set (own_keys (JObj kvs)))"
| "has_property k (JArr xs) = Inr False"
| "has_property k v = Inl TypeError"

text \<open>The loop \<open>for (const key of [...]) if (key in data) next[key] = deepClone(data[key])\<close>.\<close>

fun overlay :: "top_key list \<Rightarrow> jsval \<Rightarrow> snapshot \<Rightarrow> error + snapshot" where
  "overlay [] data next = Inr next"
| "overlay (key # keys) data next =
     (case has_property (key_name key) data of
        Inl e \<Rightarrow> Inl e
      | Inr False \<Rightarrow> overlay keys data next
      | Inr True \<Rightarrow>
          (case get_prop data (key_name key) of
             Inl e \<Rightarrow> Inl e
           | Inr v \<Rightarrow>
               (case deepClone v of
                  Inl e \<Rightarrow> Inl e
                | Inr c \<Rightarrow> overlay keys data (assign_key key c next))))"

definition validateAndLoadData :: "jsval \<Rightarrow> world \<Rightarrow> error option \<times> world" where
  "validateAndLoadData data w =
     (if falsy data \<or> typeof data \<noteq> ''object'' then (Some InvalidData, w)
      else case overlay recognized_keys data initial of
             Inl e \<Rightarrow> (Some e, w)
           | Inr next \<Rightarrow> (None, save (w\<lparr> state := next \<rparr>)))"

text \<open>A structured record in the sense of the data model: a mapping from field names to
  values, which an array is not.\<close>

definition structured_record :: "jsval \<Rightarrow> bool" where
  "structured_record v = is_object v"

text \<open>An export of the seeded scenario with a light theme and a key the program does not
  know.\<close>

definition backup :: jsval where
  "backup = JObj [(''students'', JArr [S1]), (''theme'', JStr ''light''),
                  (''exportedBy'', JStr ''registrar'')]"

fun is_array :: "jsval \<Rightarrow> bool" where
  "is_array (JArr xs) = True"
| "is_array v = False"

text \<open>What the loop of \<open>validateAndLoadData\<close> computes when no copy fails: every recognised
  key that the data has is assigned the value the data gives it.\<close>

definition overlaid :: "top_key list \<Rightarrow> jsval \<Rightarrow> snapshot \<Rightarrow> snapshot" where
  "overlaid keys data s =
     foldl (\<lambda>s key. if key_name key \<in> set (own_keys data)
                     then assign_key key (field data (key_name key)) s else s) s keys"


section \<open>Strings\<close>

text \<open>\<open>c.toLowerCase()\<close> on one character. The letters in upper case among the code units
  \<open>0x00\<close> to \<open>0xFF\<close> are \<open>A\<close> to \<open>Z\<close> and \<open>0xC0\<close> to \<open>0xDE\<close> without the multiplication sign
  \<open>0xD7\<close>; the letter in lower case is 32 code units further on. Every other character
  is its own lower case.\<close>

definition lower_char :: "char \<Rightarrow> char" where
  "lower_char c =
     (let n = of_char c :: nat
      in if (65 \<le> n \<and> n \<le> 90) \<or> (192 \<le> n \<and> n \<le> 214) \<or> (216 \<le> n \<and> n \<le> 222)
         then char_of (n + 32) else c)"

text \<open>\<open>c.toUpperCase()\<close> on one character: the letters \<open>a\<close> to \<open>z\<close> and \<open>0xE0\<close> to \<open>0xFE\<close>
  without the division sign \<open>0xF7\<close> have their upper case 32 code units before them. The
  upper case of the three letters \<open>0xB5\<close>, \<open>0xDF\<close> and \<open>0xFF\<close> is no code unit below
  \<open>0x100\<close>, so the function is that of the language on all other characters only;
  \<open>camel\<close>, its one caller, applies it to ASCII letters and digits only
  (\<open>upper_char_alnum\<close>, \<open>camel_case_eq\<close>).\<close>

definition upper_char :: "char \<Rightarrow> char" where
  "upper_char c =
     (let n = of_char c :: nat
      in if (97 \<le> n \<and> n \<le> 122) \<or> (224 \<le> n \<and> n \<le> 246) \<or> (248 \<le> n \<and> n \<le> 254)
         then char_of (n - 32) else c)"




text \<open>\<open>xs.join(sep)\<close>\<close>

fun join :: "string \<Rightarrow> string list \<Rightarrow> string" where
  "join sep [] = []"
| "join sep [x] = x"
| "join sep (x # y # ys) = x @ sep @ join sep (y # ys)"

text \<open>\<open>String(v)\<close>, which is also the conversion of a template literal and of a property
  key. Every number of the model is an integer below \<open>10 ^ 21\<close> in absolute value, which
  the conversion writes in plain decimal, without an exponent. An object is converted by
  the \<open>toString\<close> that it inherits.\<close>

fun ToString :: "jsval \<Rightarrow> string" where
  "ToString JUndefined = ''undefined''"
| "ToString JNull = ''null''"
| "ToString (JBool b) = (if b then ''true'' else ''false'')"
| "ToString (JNum n) =
     (if sint n < 0 then CHR ''-'' # nat_digits (nat (- sint n)) else nat_digits (nat (sint n)))"
| "ToString (JStr s) = s"
| "ToString (JArr xs) = join '','' (map (\<lambda>x. if nullish x then [] else ToString x) xs)"
| "ToString (JObj kvs) = ''[object Object]''"

section \<open>Query engine\<close>

text \<open>A field of a record is given by its name or computed by a function of the record;
  a computed accessor is taken to be total.\<close>

datatype accessor = Named string | Computed "jsval \<Rightarrow> jsval"

text \<open>The accessors whose names are read as own properties.\<close>

fun own_accessor :: "accessor \<Rightarrow> bool" where
  "own_accessor (Named f) = own_name f"
| "own_accessor (Computed g) = True"


text \<open>The getter of \<open>filterByTerm\<close> and of \<open>sortBy\<close> for a field name:
  \<open>item[f] ?? ''\<close>; a computed accessor is applied as it is.\<close>

fun getter :: "jsval \<Rightarrow> accessor \<Rightarrow> error + jsval" where
  "getter item (Computed g) = Inr (g item)"
| "getter item (Named f) =
     (case get_prop item f of
        Inl e \<Rightarrow> Inl e
      | Inr v \<Rightarrow> Inr (if nullish v then JStr '''' else v))"



subsection \<open>The words of the specification\<close>

text \<open>The string representation of a field of a record, an absent named field counting as
  the empty string.\<close>

fun field_text :: "jsval \<Rightarrow> accessor \<Rightarrow> string" where
  "field_text item (Named f) = (if nullish (field item f) then [] else ToString (field item f))"
| "field_text item (Computed g) = ToString (g item)"





subsection \<open>Sorting\<close>

text \<open>
  \<open>list.sort(cmp)\<close> is stable. For a comparator that orders the elements consistently the
  result is the one stable sorted arrangement, which insertion from the right computes:
  an element goes in front of the first element that it does not compare greater than.
  The comparator is called on every element when there are at least two.
\<close>

fun sort_insert :: "('a \<Rightarrow> 'a \<Rightarrow> error + int) \<Rightarrow> 'a \<Rightarrow> 'a list \<Rightarrow> error + 'a list" where
  "sort_insert cmp x [] = Inr [x]"
| "sort_insert cmp x (y # ys) =
     (case cmp x y of
        Inl e \<Rightarrow> Inl e
      | Inr c \<Rightarrow>
          if c \<le> 0 then Inr (x # y # ys)
          else (case sort_insert cmp x ys of
                  Inl e \<Rightarrow> Inl e
                | Inr zs \<Rightarrow> Inr (y # zs)))"

fun array_sort :: "('a \<Rightarrow> 'a \<Rightarrow> error + int) \<Rightarrow> 'a list \<Rightarrow> error + 'a list" where
  "array_sort cmp [] = Inr []"
| "array_sort cmp (x # xs) =
     (case array_sort cmp xs of
        Inl e \<Rightarrow> Inl e
      | Inr ys \<Rightarrow> sort_insert cmp x ys)"

text \<open>The comparator of \<open>sortBy\<close>:
  \<open>(a, b) => String(getter(a)).localeCompare(String(getter(b)))\<close>. The comparison of the
  locale is a parameter.\<close>

definition key_compare ::
  "(string \<Rightarrow> string \<Rightarrow> int) \<Rightarrow> accessor \<Rightarrow> jsval \<Rightarrow> jsval \<Rightarrow> error + int" where
  "key_compare localeCompare key a b =
     (case getter a key of
        Inl e \<Rightarrow> Inl e
      | Inr va \<Rightarrow>
          (case getter b key of
             Inl e \<Rightarrow> Inl e
           | Inr vb \<Rightarrow> Inr (localeCompare (ToString va) (ToString vb))))"

definition sortBy ::
  "(string \<Rightarrow> string \<Rightarrow> int) \<Rightarrow> jsval list \<Rightarrow> accessor \<Rightarrow> error + jsval list" where
  "sortBy localeCompare list key =
     (case deepClone (JArr list) of
        Inl e \<Rightarrow> Inl e
      | Inr c \<Rightarrow> array_sort (key_compare localeCompare key) (elems c))"

text \<open>A comparison orders strings consistently when exchanging its arguments exchanges
  the sign of its result and "not greater" is transitive.\<close>

definition consistent :: "(string \<Rightarrow> string \<Rightarrow> int) \<Rightarrow> bool" where
  "consistent cmp \<longleftrightarrow>
     (\<forall>a b. cmp a b < 0 \<longleftrightarrow> 0 < cmp b a) \<and>
     (\<forall>a b c. cmp a b \<le> 0 \<and> cmp b c \<le> 0 \<longrightarrow> cmp a c \<le> 0)"

text \<open>The comparison of strings by their character codes, with which the comparison of a
  locale agrees on words of lower-case ASCII letters.\<close>

fun code_compare :: "string \<Rightarrow> string \<Rightarrow> int" where
  "code_compare [] [] = 0"
| "code_compare [] (d # t) = - 1"
| "code_compare (c # s) [] = 1"
| "code_compare (c # s) (d # t) =
     (if (of_char c :: nat) < of_char d then - 1
      else if (of_char d :: nat) < of_char c then 1
      else code_compare s t)"

text \<open>Insertion and sorting with a comparison that cannot fail.\<close>

fun insert_by :: "('a \<Rightarrow> 'a \<Rightarrow> int) \<Rightarrow> 'a \<Rightarrow> 'a list \<Rightarrow> 'a list" where
  "insert_by cmp x [] = [x]"
| "insert_by cmp x (y # ys) = (if cmp x y \<le> 0 then x # y # ys else y # insert_by cmp x ys)"

fun sort_by :: "('a \<Rightarrow> 'a \<Rightarrow> int) \<Rightarrow> 'a list \<Rightarrow> 'a list" where
  "sort_by cmp [] = []"
| "sort_by cmp (x # xs) = insert_by cmp x (sort_by cmp xs)"

text \<open>Two records for sorting: the first has no field \<open>k\<close>.\<close>

definition R1 :: jsval where
  "R1 = JObj [(''id'', JStr ''r1'')]"

definition R2 :: jsval where
  "R2 = JObj [(''id'', JStr ''r2''), (''k'', JStr ''b'')]"


subsection \<open>Grouping and the teacher-load report\<close>

text \<open>The key of \<open>groupBy\<close> is a function of the item or the name of a property.\<close>

datatype key_spec = ByFunction "jsval \<Rightarrow> error + jsval" | ByName string

fun key_of :: "key_spec \<Rightarrow> jsval \<Rightarrow> error + jsval" where
  "key_of (ByFunction g) item = g item"
| "key_of (ByName k) item = get_prop item k"

text \<open>\<open>acc[key] ||= []; acc[key].push(item)\<close> on the groups in the order of their
  creation.\<close>

fun push_group :: "(string \<times> jsval list) list \<Rightarrow> string \<Rightarrow> jsval \<Rightarrow> (string \<times> jsval list) list" where
  "push_group [] key item = [(key, [item])]"
| "push_group ((k, xs) # acc) key item =
     (if k = key then (k, xs @ [item]) # acc else (k, xs) # push_group acc key item)"

text \<open>The loop of \<open>reduce\<close>. For a key that names a member of \<open>Object.prototype\<close> the
  value of \<open>acc[key]\<close> is that member, which has no \<open>push\<close>: the call throws.\<close>

fun group_loop ::
  "(string \<times> jsval list) list \<Rightarrow> key_spec \<Rightarrow> jsval list \<Rightarrow> error + (string \<times> jsval list) list" where
  "group_loop acc keyFn [] = Inr acc"
| "group_loop acc keyFn (item # items) =
     (case key_of keyFn item of
        Inl e \<Rightarrow> Inl e
      | Inr v \<Rightarrow>
          if ToString v \<in> set object_prototype_names then Inl TypeError
          else group_loop (push_group acc (ToString v) item) keyFn items)"

definition groupBy :: "jsval list \<Rightarrow> key_spec \<Rightarrow> error + (string \<times> jsval list) list" where
  "groupBy list keyFn = group_loop [] keyFn list"

text \<open>
  \<open>Object.entries\<close> lists the properties whose names are array indices first, in
  ascending order, and the others after them in the order of their creation. An array
  index is the decimal numeral, without leading zero, of a number below \<open>2\<^sup>3\<^sup>2 - 1\<close>.
\<close>

definition is_digit :: "char \<Rightarrow> bool" where
  "is_digit c = (let n = of_char c :: nat in 48 \<le> n \<and> n \<le> 57)"

definition digits_value :: "string \<Rightarrow> nat" where
  "digits_value k = foldl (\<lambda>n c. 10 * n + (of_char c - 48)) 0 k"

definition is_array_index :: "string \<Rightarrow> bool" where
  "is_array_index k \<longleftrightarrow>
     k \<noteq> [] \<and> list_all is_digit k \<and> (length k = 1 \<or> hd k \<noteq> CHR ''0'') \<and>
     digits_value k < 4294967295"

definition Object_entries :: "(string \<times> 'a) list \<Rightarrow> (string \<times> 'a) list" where
  "Object_entries kvs =
     sort_key (\<lambda>kv. digits_value (fst kv)) (filter (\<lambda>kv. is_array_index (fst kv)) kvs) @
     filter (\<lambda>kv. \<not> is_array_index (fst kv)) kvs"

text \<open>\<open>c => c.teacherId || 'Unassigned'\<close>\<close>

definition teacher_key :: "jsval \<Rightarrow> error + jsval" where
  "teacher_key c =
     (case get_prop c ''teacherId'' of
        Inl e \<Rightarrow> Inl e
      | Inr v \<Rightarrow> Inr (if falsy v then JStr ''Unassigned'' else v))"

text \<open>One row of the report: the name of the teacher, before it is escaped for HTML, and
  the number of classes of the group.\<close>

definition teacher_row :: "snapshot \<Rightarrow> string \<times> jsval list \<Rightarrow> error + string \<times> nat" where
  "teacher_row s entry =
     (case entry of (teacherId, cls) \<Rightarrow>
        (case teachers s of
           JArr ts \<Rightarrow>
             (case array_find (prop_is ''id'' teacherId) ts of
                Inl e \<Rightarrow> Inl e
              | Inr None \<Rightarrow> Inr (''Unassigned'', length cls)
              | Inr (Some t) \<Rightarrow>
                  (case get_prop t ''firstName'' of
                     Inl e \<Rightarrow> Inl e
                   | Inr fn \<Rightarrow>
                       (case get_prop t ''lastName'' of
                          Inl e \<Rightarrow> Inl e
                        | Inr ln \<Rightarrow> Inr (ToString fn @ '' '' @ ToString ln, length cls))))
         | _ \<Rightarrow> Inl TypeError))"

text \<open>The body of the table: the rows, or the line "No data" when there is none.\<close>

datatype table_body = No_data | Rows "(string \<times> nat) list"

text \<open>\<open>UI.renderReportOutput('teacherLoad')\<close>\<close>

definition teacherLoad :: "snapshot \<Rightarrow> error + table_body" where
  "teacherLoad s =
     (case classes s of
        JArr cs \<Rightarrow>
          (case groupBy cs (ByFunction teacher_key) of
             Inl e \<Rightarrow> Inl e
           | Inr groups \<Rightarrow>
               (case array_map (teacher_row s) (Object_entries groups) of
                  Inl e \<Rightarrow> Inl e
                | Inr rows \<Rightarrow> Inr (if rows = [] then No_data else Rows rows)))
      | _ \<Rightarrow> Inl TypeError)"

subsection \<open>The report in the words of the specification\<close>

text \<open>The elements of a list without repetition, each at its first occurrence.\<close>

definition first_occurrences :: "'a list \<Rightarrow> 'a list" where
  "first_occurrences xs = rev (remdups (rev xs))"

text \<open>The items grouped by a key, the groups in the order of their first item.\<close>

definition groups_of :: "(jsval \<Rightarrow> string) \<Rightarrow> jsval list \<Rightarrow> (string \<times> jsval list) list" where
  "groups_of k xs =
     map (\<lambda>g. (g, filter (\<lambda>x. k x = g) xs)) (first_occurrences (map k xs))"

text \<open>The bucket of a class: its \<open>teacherId\<close>, or \<open>Unassigned\<close> when that is empty or
  missing.\<close>

definition class_bucket :: "jsval \<Rightarrow> string" where
  "class_bucket c =
     ToString (if falsy (field c ''teacherId'') then JStr ''Unassigned''
               else field c ''teacherId'')"

text \<open>A bucket that the report lists in the order of its creation: its name is neither
  inherited by every object nor an array index.\<close>

definition plain_bucket :: "string \<Rightarrow> bool" where
  "plain_bucket k \<longleftrightarrow> own_name k \<and> \<not> is_array_index k"

text \<open>The label of a bucket: the name of the first teacher whose id it is, or
  \<open>Unassigned\<close> when there is none.\<close>

definition bucket_label :: "jsval list \<Rightarrow> string \<Rightarrow> string" where
  "bucket_label ts k =
     (case find (\<lambda>t. field t ''id'' = JStr k) ts of
        None \<Rightarrow> ''Unassigned''
      | Some t \<Rightarrow> ToString (field t ''firstName'') @ '' '' @ ToString (field t ''lastName''))"

text \<open>The seeded scenario after teacher T1 was removed, and after class C1 was removed
  as well.\<close>

definition after_T1 :: world where
  "after_T1 = snd (Data_remove Teachers ''t1'' seeded)"

definition after_C1 :: world where
  "after_C1 = snd (Data_remove Classes ''c1'' after_T1)"


section \<open>Tabular import\<close>

definition LF :: char where
  "LF = CHR 0x0A"

definition CR :: char where
  "CR = CHR 0x0D"

definition quote :: char where
  "quote = CHR 0x22"

definition comma :: char where
  "comma = CHR '',''"

definition space :: char where
  "space = CHR '' ''"

text \<open>The split of the text into lines by the regular expression of the source: a line
  ends at a line feed, which a carriage return may precede; \<open>cur\<close> is the line read so
  far.\<close>

fun split_lines_from :: "string \<Rightarrow> string \<Rightarrow> string list" where
  "split_lines_from cur [] = [cur]"
| "split_lines_from cur [c] = (if c = LF then [cur, []] else [cur @ [c]])"
| "split_lines_from cur (c # d # ds) =
     (if c = LF then cur # split_lines_from [] (d # ds)
      else if c = CR \<and> d = LF then cur # split_lines_from [] ds
      else split_lines_from (cur @ [c]) (d # ds))"

definition split_lines :: "string \<Rightarrow> string list" where
  "split_lines s = split_lines_from [] s"

text \<open>\<open>line.split(',')\<close>\<close>

fun split_from :: "char \<Rightarrow> string \<Rightarrow> string \<Rightarrow> string list" where
  "split_from sep cur [] = [cur]"
| "split_from sep cur (c # cs) =
     (if c = sep then cur # split_from sep [] cs else split_from sep (cur @ [c]) cs)"

text \<open>\<open>s.trim()\<close> removes the white space and the line terminators at both ends: among
  the code units \<open>0x00\<close> to \<open>0xFF\<close> these are the tabulator, the line feed, the vertical
  tabulator, the form feed, the carriage return, the space and the no-break space
  \<open>0xA0\<close>.\<close>

definition is_space :: "char \<Rightarrow> bool" where
  "is_space c = (let n = of_char c :: nat in (9 \<le> n \<and> n \<le> 13) \<or> n = 32 \<or> n = 160)"

definition trimEnd :: "string \<Rightarrow> string" where
  "trimEnd s = rev (dropWhile is_space (rev s))"

definition trim :: "string \<Rightarrow> string" where
  "trim s = trimEnd (dropWhile is_space s)"

text \<open>The letters \<open>a-zA-Z\<close> and the letters and digits \<open>a-zA-Z0-9\<close> of the regular
  expressions of \<open>camel\<close> are those of ASCII.\<close>

definition is_letter :: "char \<Rightarrow> bool" where
  "is_letter c = (let n = of_char c :: nat in (65 \<le> n \<and> n \<le> 90) \<or> (97 \<le> n \<and> n \<le> 122))"

definition is_alnum :: "char \<Rightarrow> bool" where
  "is_alnum c = (let n = of_char c :: nat in is_letter c \<or> (48 \<le> n \<and> n \<le> 57))"

text \<open>What \<open>.\<close> of a regular expression does not match.\<close>

definition is_line_terminator :: "char \<Rightarrow> bool" where
  "is_line_terminator c = (c = LF \<or> c = CR)"

subsection \<open>\<open>camel\<close>\<close>

text \<open>The second alternative of the first replacement: every run of characters that are
  neither letters nor digits becomes one space.\<close>

function blanks :: "string \<Rightarrow> string" where
  "blanks [] = []"
| "blanks (c # cs) =
     (if is_alnum c then c # blanks cs
      else space # blanks (dropWhile (\<lambda>d. \<not> is_alnum d) cs))"
  by pat_completeness auto
termination
  by (relation "measure length") (auto simp: le_imp_less_Suc length_dropWhile_le)

text \<open>\<open>s.replace(/^[^a-zA-Z]+|[^a-zA-Z0-9]+/g, ' ')\<close>: at the start of the string the run
  of characters that are not letters becomes one space.\<close>

definition separate :: "string \<Rightarrow> string" where
  "separate s =
     (case s of
        [] \<Rightarrow> []
      | c # cs \<Rightarrow>
          if is_letter c then blanks s
          else space # blanks (dropWhile (\<lambda>d. \<not> is_letter d) s))"

text \<open>\<open>s.replace(/ (.)/g, (_, c) => c.toUpperCase())\<close>\<close>

fun capitalize :: "string \<Rightarrow> string" where
  "capitalize [] = []"
| "capitalize [c] = [c]"
| "capitalize (c # d # ds) =
     (if c = space \<and> \<not> is_line_terminator d then upper_char d # capitalize ds
      else c # capitalize (d # ds))"

text \<open>\<open>s.replace(/^(.)/, (_, c) => c.toLowerCase())\<close>\<close>

fun lower_first :: "string \<Rightarrow> string" where
  "lower_first [] = []"
| "lower_first (c # cs) = (if is_line_terminator c then c # cs else lower_char c # cs)"

definition camel :: "string \<Rightarrow> string" where
  "camel s = lower_first (capitalize (trim (separate s)))"

subsection \<open>\<open>parseCSV\<close>\<close>

text \<open>The loop over the characters of a line: the characters still to read, the cells
  read, the cell read so far, and whether the position is inside quotes.\<close>

fun cells_loop :: "string \<Rightarrow> string list \<Rightarrow> string \<Rightarrow> bool \<Rightarrow> string list" where
  "cells_loop [] cells current inQuotes = cells @ [current]"
| "cells_loop [ch] cells current inQuotes =
     (if ch = quote then cells_loop [] cells current (\<not> inQuotes)
      else if ch = comma \<and> \<not> inQuotes then cells_loop [] (cells @ [current]) [] inQuotes
      else cells_loop [] cells (current @ [ch]) inQuotes)"
| "cells_loop (ch # nx # rest) cells current inQuotes =
     (if ch = quote then
        (if inQuotes \<and> nx = quote then cells_loop rest cells (current @ [quote]) inQuotes
         else cells_loop (nx # rest) cells current (\<not> inQuotes))
      else if ch = comma \<and> \<not> inQuotes then cells_loop (nx # rest) (cells @ [current]) [] inQuotes
      else cells_loop (nx # rest) cells (current @ [ch]) inQuotes)"

definition parse_cells :: "string \<Rightarrow> string list" where
  "parse_cells line = cells_loop line [] [] False"

text \<open>\<open>headers.forEach((h, idx) => obj[camel(h)] = cells[idx]?.trim() ?? '')\<close>, the cells
  from index \<open>idx\<close> on being given.\<close>

fun row_fields :: "string list \<Rightarrow> string list \<Rightarrow> jsobj \<Rightarrow> jsobj" where
  "row_fields [] cells obj = obj"
| "row_fields (h # hs) [] obj = row_fields hs [] (set_prop obj (camel h) (JStr []))"
| "row_fields (h # hs) (c # cs) obj = row_fields hs cs (set_prop obj (camel h) (JStr (trim c)))"

definition parseCSV :: "string \<Rightarrow> jsval list" where
  "parseCSV csvText =
     (case filter (\<lambda>l. l \<noteq> []) (split_lines csvText) of
        [] \<Rightarrow> []
      | first # rest \<Rightarrow>
          (let headers = map trim (split_from comma [] first)
           in map (\<lambda>line. JObj (row_fields headers (parse_cells line) [])) rest))"

subsection \<open>The quoting of \<open>toCSV\<close>\<close>

text \<open>\<open>s.replace(/"/g, '""')\<close> and the function \<open>esc\<close> of \<open>toCSV\<close> on a string.\<close>

fun double_quotes :: "string \<Rightarrow> string" where
  "double_quotes [] = []"
| "double_quotes (c # cs) = (if c = quote then quote # quote # double_quotes cs
                             else c # double_quotes cs)"

definition esc :: "string \<Rightarrow> string" where
  "esc s = (if list_ex (\<lambda>c. c = quote \<or> c = comma \<or> c = LF) s
            then quote # double_quotes s @ [quote] else s)"

subsection \<open>Camel case in the words of the specification\<close>

text \<open>The case of one ASCII letter.\<close>

definition ascii_upper :: "char \<Rightarrow> char" where
  "ascii_upper c =
     (let n = of_char c :: nat in if 97 \<le> n \<and> n \<le> 122 then char_of (n - 32) else c)"

definition ascii_lower :: "char \<Rightarrow> char" where
  "ascii_lower c =
     (let n = of_char c :: nat in if 65 \<le> n \<and> n \<le> 90 then char_of (n + 32) else c)"

text \<open>The words of a header are its maximal runs of letters and digits. \<open>join_words\<close>
  writes the words one after the other and drops the characters between them; every
  word that follows dropped characters starts in upper case. The flag tells that
  characters have been dropped since the last letter or digit.\<close>

fun join_words :: "bool \<Rightarrow> string \<Rightarrow> string" where
  "join_words dropped [] = []"
| "join_words dropped (c # cs) =
     (if is_alnum c then (if dropped then ascii_upper c else c) # join_words False cs
      else join_words True cs)"

text \<open>The normal form of a header: it is read from its first letter on, and this letter
  is put in lower case; a header without a letter has the empty name.\<close>

definition camel_case :: "string \<Rightarrow> string" where
  "camel_case s =
     (case dropWhile (\<lambda>c. \<not> is_letter c) s of
        [] \<Rightarrow> []
      | c # cs \<Rightarrow> ascii_lower c # join_words False cs)"

subsection \<open>Example texts\<close>

text \<open>The text of the example; a text whose headers are not in camel case and whose row
  lacks a cell, with a no-break space \<open>0xA0\<close> around a header and a cell; and the text of
  a table with the one column \<open>note\<close> and one row, whose field holds a line break.\<close>

definition ada_csv :: string where
  "ada_csv = ''firstName,lastName'' @ [LF] @ ''Ada,Lovelace''"

definition names_header :: string where
  "names_header = ''First Name, last-name '' @ [CHR 0xA0] @ '',2nd e_mail,DOB''"

definition names_row :: string where
  "names_row =
     [CHR 0xA0] @ '' Ada ,'' @ [quote] @ ''Lovelace, Countess'' @ [quote] @ '',a@b.org''"

definition names_csv :: string where
  "names_csv = names_header @ [CR, LF] @ names_row"

definition note_csv :: string where
  "note_csv = ''note'' @ [LF] @ esc (''a'' @ [LF] @ ''b'')"

text \<open>The first \<open>n\<close> cells of a row, a missing cell counting as empty.\<close>

fun pad_cells :: "nat \<Rightarrow> string list \<Rightarrow> string list" where
  "pad_cells 0 cs = []"
| "pad_cells (Suc n) [] = [] # pad_cells n []"
| "pad_cells (Suc n) (c # cs) = c # pad_cells n cs"


section \<open>Properties of the entity repository\<close>

lemma get_prop_object: "is_object r \<Longrightarrow> get_prop r k = Inr (field r k)"
  by (cases r) simp_all

lemma array_filter_records:
  "list_all is_object rs \<Longrightarrow>
   array_filter (prop_is_not k i) rs = Inr (filter (\<lambda>r. field r k \<noteq> JStr i) rs)"
  by (induction rs) (simp_all add: prop_is_not_def get_prop_object)

lemma map_of_set_prop: "map_of (set_prop kvs k v) = (map_of kvs)(k \<mapsto> v)"
  by (induction kvs) (auto simp: fun_eq_iff)

lemma own_set_prop: "own (set_prop kvs k v) k' = (if k' = k then v else own kvs k')"
  by (simp add: own_def map_of_set_prop)

lemma array_map_clear_teacher:
  "list_all is_object cs \<Longrightarrow> array_map (clear_teacher i) cs = Inr (map (unassign i) cs)"
  by (induction cs) (simp_all add: clear_teacher_def unassign_def get_prop_object)

lemma records_elems: "records v \<Longrightarrow> v = JArr (elems v) \<and> list_all is_object (elems v)"
  by (cases v) simp_all

lemma filter_objects: "list_all is_object rs \<Longrightarrow> list_all is_object (filter P rs)"
  by (induction rs) simp_all

lemma state_save [simp]: "state (save w) = state w"
  by (simp add: save_def Let_def)

lemma Data_remove_well_formed:
  assumes "well_formed (state w)"
  shows "Data_remove Teachers i w = (None, save (w\<lparr> state := (state w)
           \<lparr> teachers := JArr (filter (\<lambda>r. field r ''id'' \<noteq> JStr i) (elems (teachers (state w)))),
             classes := JArr (map (unassign i) (elems (classes (state w)))) \<rparr> \<rparr>))"
    and "Data_remove Students i w = (None, save (w\<lparr> state := (state w)
           \<lparr> students := JArr (filter (\<lambda>r. field r ''id'' \<noteq> JStr i) (elems (students (state w)))),
             enrollments := JArr (filter (\<lambda>e. field e ''studentId'' \<noteq> JStr i)
                                     (elems (enrollments (state w)))) \<rparr> \<rparr>))"
    and "Data_remove Classes i w = (None, save (w\<lparr> state := (state w)
           \<lparr> classes := JArr (filter (\<lambda>r. field r ''id'' \<noteq> JStr i) (elems (classes (state w)))),
             enrollments := JArr (filter (\<lambda>e. field e ''classId'' \<noteq> JStr i)
                                     (elems (enrollments (state w)))) \<rparr> \<rparr>))"
    and "Data_remove Enrollments i w = (None, save (w\<lparr> state := (state w)
           \<lparr> enrollments := JArr (filter (\<lambda>r. field r ''id'' \<noteq> JStr i)
                                     (elems (enrollments (state w)))) \<rparr> \<rparr>))"
proof -
  obtain ss ts cs es where
    eqs: "students (state w) = JArr ss" "teachers (state w) = JArr ts"
         "classes (state w) = JArr cs" "enrollments (state w) = JArr es"
    and objs: "list_all is_object ss" "list_all is_object ts"
         "list_all is_object cs" "list_all is_object es"
    using assms records_elems unfolding well_formed_def by metis
  show "Data_remove Teachers i w = (None, save (w\<lparr> state := (state w)
           \<lparr> teachers := JArr (filter (\<lambda>r. field r ''id'' \<noteq> JStr i) (elems (teachers (state w)))),
             classes := JArr (map (unassign i) (elems (classes (state w)))) \<rparr> \<rparr>))"
    using eqs objs
    by (simp add: Data_remove_def array_filter_records array_map_clear_teacher)
  show "Data_remove Students i w = (None, save (w\<lparr> state := (state w)
           \<lparr> students := JArr (filter (\<lambda>r. field r ''id'' \<noteq> JStr i) (elems (students (state w)))),
             enrollments := JArr (filter (\<lambda>e. field e ''studentId'' \<noteq> JStr i)
                                     (elems (enrollments (state w)))) \<rparr> \<rparr>))"
    using eqs objs by (simp add: Data_remove_def array_filter_records)
  show "Data_remove Classes i w = (None, save (w\<lparr> state := (state w)
           \<lparr> classes := JArr (filter (\<lambda>r. field r ''id'' \<noteq> JStr i) (elems (classes (state w)))),
             enrollments := JArr (filter (\<lambda>e. field e ''classId'' \<noteq> JStr i)
                                     (elems (enrollments (state w)))) \<rparr> \<rparr>))"
    using eqs objs by (simp add: Data_remove_def array_filter_records)
  show "Data_remove Enrollments i w = (None, save (w\<lparr> state := (state w)
           \<lparr> enrollments := JArr (filter (\<lambda>r. field r ''id'' \<noteq> JStr i)
                                     (elems (enrollments (state w)))) \<rparr> \<rparr>))"
    using eqs objs by (simp add: Data_remove_def array_filter_records)
qed

lemma unassign_hit:
  "is_object c \<Longrightarrow> field c ''teacherId'' = JStr i \<Longrightarrow>
   field (unassign i c) f = (if f = ''teacherId'' then JStr '''' else field c f)"
  by (cases c) (simp_all add: unassign_def own_set_prop)

lemma unassign_miss: "field c ''teacherId'' \<noteq> JStr i \<Longrightarrow> unassign i c = c"
  by (simp add: unassign_def)

lemma well_formed_seeded: "well_formed (state seeded)"
  by (simp add: well_formed_def seeded_def initial_def T1_def C1_def S1_def E1_def)

text \<open>
  Claim C2. On a well-formed snapshot \<open>Data.remove\<close> returns normally, filters the
  records with the given id out of the entity's collection, and applies exactly the cascade
  of the entity kind: for a teacher, every class whose \<open>teacherId\<close> is the id has its
  \<open>teacherId\<close> set to the empty string, its other fields kept, and every other class is
  unchanged; for a student, exactly the enrollments whose \<open>studentId\<close> is the id are
  deleted; for a class, exactly the enrollments whose \<open>classId\<close> is the id are deleted;
  for an enrollment no other collection changes.
\<close>

theorem Data_remove_cascade:
  assumes wf: "well_formed (state w)"
  shows "fst (Data_remove k i w) = None \<and>
    (let s = state w; s' = state (snd (Data_remove k i w)) in
     version s' = version s \<and> theme s' = theme s \<and>
     collection k s' = JArr (filter (\<lambda>r. field r ''id'' \<noteq> JStr i) (elems (collection k s))) \<and>
     (k = Teachers \<longrightarrow>
        students s' = students s \<and> enrollments s' = enrollments s \<and>
        length (elems (classes s')) = length (elems (classes s)) \<and>
        (\<forall>j < length (elems (classes s)).
           (field (elems (classes s) ! j) ''teacherId'' = JStr i \<longrightarrow>
              field (elems (classes s') ! j) ''teacherId'' = JStr '''' \<and>
              (\<forall>f. f \<noteq> ''teacherId'' \<longrightarrow>
                 field (elems (classes s') ! j) f = field (elems (classes s) ! j) f)) \<and>
           (field (elems (classes s) ! j) ''teacherId'' \<noteq> JStr i \<longrightarrow>
              elems (classes s') ! j = elems (classes s) ! j))) \<and>
     (k = Students \<longrightarrow>
        teachers s' = teachers s \<and> classes s' = classes s \<and>
        enrollments s' =
          JArr (filter (\<lambda>e. field e ''studentId'' \<noteq> JStr i) (elems (enrollments s)))) \<and>
     (k = Classes \<longrightarrow>
        students s' = students s \<and> teachers s' = teachers s \<and>
        enrollments s' =
          JArr (filter (\<lambda>e. field e ''classId'' \<noteq> JStr i) (elems (enrollments s)))) \<and>
     (k = Enrollments \<longrightarrow>
        students s' = students s \<and> teachers s' = teachers s \<and> classes s' = classes s))"
proof (cases k)
  case Teachers
  have objs: "list_all is_object (elems (classes (state w)))"
    using wf records_elems by (simp add: well_formed_def)
  show ?thesis
    using Teachers objs
    by (simp add: Data_remove_well_formed(1)[OF wf] Let_def unassign_hit unassign_miss
          list_all_length)
next
  case Students
  then show ?thesis by (simp add: Data_remove_well_formed(2)[OF wf] Let_def)
next
  case Classes
  then show ?thesis by (simp add: Data_remove_well_formed(3)[OF wf] Let_def)
next
  case Enrollments
  then show ?thesis by (simp add: Data_remove_well_formed(4)[OF wf] Let_def)
qed

theorem Data_remove_cascade_witness:
  "well_formed (state seeded) \<and>
   fst (Data_remove Teachers ''t1'' seeded) = None \<and>
   teachers (state (snd (Data_remove Teachers ''t1'' seeded))) = JArr [] \<and>
   field (elems (classes (state (snd (Data_remove Teachers ''t1'' seeded)))) ! 0) ''teacherId''
     = JStr '''' \<and>
   field (elems (classes (state (snd (Data_remove Teachers ''t1'' seeded)))) ! 0) ''code''
     = JStr ''MATH101'' \<and>
   fst (Data_remove Students ''s1'' seeded) = None \<and>
   enrollments (state (snd (Data_remove Students ''s1'' seeded))) = JArr []"
  using Data_remove_cascade [OF well_formed_seeded, of Teachers "''t1''"]
    Data_remove_cascade [OF well_formed_seeded, of Students "''s1''"]
  by (simp add: well_formed_seeded Let_def)
    (simp add: seeded_def initial_def T1_def C1_def S1_def E1_def own_def)


lemma own_assign_all:
  "own (assign_all a b) f = (case map_of (rev b) f of None \<Rightarrow> own a f | Some v \<Rightarrow> v)"
  unfolding assign_all_def
proof (induction b arbitrary: a)
  case Nil
  then show ?case by simp
next
  case (Cons x xs)
  obtain k v where x: "x = (k, v)" by (cases x)
  show ?case
    by (simp add: x Cons.IH own_set_prop map_add_def split: option.splits)
qed

lemma own_assign_all_named:
  assumes "distinct (map fst b)" "(f, v) \<in> set b"
  shows "own (assign_all a b) f = v"
proof -
  have "distinct (map fst (rev b))" using assms(1) by (metis distinct_rev rev_map)
  then have "map_of (rev b) f = Some v" using assms(2) by simp
  then show ?thesis by (simp add: own_assign_all)
qed

lemma own_assign_all_some:
  "f \<in> fst ` set b \<Longrightarrow> \<exists>v. (f, v) \<in> set b \<and> own (assign_all a b) f = v"
proof -
  assume "f \<in> fst ` set b"
  then have "f \<in> fst ` set (rev b)" by simp
  then obtain v where v: "map_of (rev b) f = Some v"
    by (metis domD dom_map_of_conv_image_fst)
  then have "(f, v) \<in> set b" using map_of_SomeD by fastforce
  then show ?thesis using v by (auto simp: own_assign_all)
qed

lemma own_assign_all_other:
  "f \<notin> fst ` set b \<Longrightarrow> own (assign_all a b) f = own a f"
proof -
  assume "f \<notin> fst ` set b"
  then have "map_of (rev b) f = None" by (simp add: map_of_eq_None_iff)
  then show ?thesis by (simp add: own_assign_all)
qed

lemma array_findIndex_records:
  "list_all is_object rs \<Longrightarrow>
   array_findIndex (prop_is k i) rs =
     Inr (if list_ex (\<lambda>r. field r k = JStr i) rs
          then Some (length (takeWhile (\<lambda>r. field r k \<noteq> JStr i) rs)) else None)"
  by (induction rs) (auto simp: prop_is_def get_prop_object)

lemma first_index_props:
  assumes "list_ex (\<lambda>r. field r ''id'' = JStr i) rs"
  shows "first_index i rs < length rs"
    and "field (rs ! first_index i rs) ''id'' = JStr i"
    and "\<forall>j < first_index i rs. field (rs ! j) ''id'' \<noteq> JStr i"
  using assms unfolding first_index_def
  by (induction rs) (auto simp: less_Suc_eq_0_disj)

lemma Data_update_records:
  assumes "records (collection k (state w))"
  shows "Data_update k i upd w =
    (let rs = elems (collection k (state w)) in
     if list_ex (\<lambda>r. field r ''id'' = JStr i) rs
     then (None, save (w\<lparr> state := set_collection k
            (JArr (rs[first_index i rs := JObj (assign_all (spread (rs ! first_index i rs)) upd)]))
            (state w) \<rparr>))
     else (None, w))"
proof -
  obtain rs where rs: "collection k (state w) = JArr rs" "list_all is_object rs"
    using assms records_elems by metis
  show ?thesis
    by (simp add: Data_update_def rs array_findIndex_records first_index_def Let_def)
qed

lemma collection_set_collection:
  "collection k' (set_collection k v s) = (if k' = k then v else collection k' s)"
  by (cases k; cases k') simp_all

lemma scalars_set_collection [simp]:
  "version (set_collection k v s) = version s" "theme (set_collection k v s) = theme s"
  by (cases k; simp)+


text \<open>
  Claim C3. Let the entity's collection be an array of records and the partial record name
  each of its fields once. \<open>Data.update\<close> raises no error. If no record of the collection
  has the id, the world is left as it was: the collection keeps its length and contents.
  If the record at index \<open>n\<close> is the first with the id, it is replaced by a record in which
  every field the partial record names has the new value and every other field its old
  value; all other records keep their place and content, and so do the other collections.
\<close>

theorem Data_update_merge:
  assumes recs: "records (collection k (state w))"
    and dist: "distinct (map fst upd)"
  shows "fst (Data_update k i upd w) = None \<and>
    (let rs = elems (collection k (state w));
         w' = snd (Data_update k i upd w);
         rs' = elems (collection k (state w')) in
     ((\<forall>r \<in> set rs. field r ''id'' \<noteq> JStr i) \<longrightarrow> w' = w) \<and>
     (\<forall>n < length rs.
        field (rs ! n) ''id'' = JStr i \<and> (\<forall>j < n. field (rs ! j) ''id'' \<noteq> JStr i) \<longrightarrow>
          collection k (state w') = JArr rs' \<and> length rs' = length rs \<and>
          (\<forall>j < length rs. j \<noteq> n \<longrightarrow> rs' ! j = rs ! j) \<and>
          is_object (rs' ! n) \<and>
          (\<forall>(f, v) \<in> set upd. field (rs' ! n) f = v) \<and>
          (\<forall>f. f \<notin> fst ` set upd \<longrightarrow> field (rs' ! n) f = field (rs ! n) f) \<and>
          (\<forall>k'. k' \<noteq> k \<longrightarrow> collection k' (state w') = collection k' (state w)) \<and>
          version (state w') = version (state w) \<and> theme (state w') = theme (state w)))"
proof -
  define rs where "rs = elems (collection k (state w))"
  have objs: "list_all is_object rs"
    using recs records_elems unfolding rs_def by blast
  show ?thesis
  proof (cases "list_ex (\<lambda>r. field r ''id'' = JStr i) rs")
    case False
    then have "Data_update k i upd w = (None, w)"
      using Data_update_records[OF recs] by (simp add: rs_def Let_def)
    moreover have "\<forall>n < length rs. field (rs ! n) ''id'' \<noteq> JStr i"
      using False by (auto simp: list_ex_iff)
    ultimately show ?thesis by (simp add: Let_def rs_def[symmetric])
  next
    case True
    define m where "m = first_index i rs"
    note fi = first_index_props[OF True, folded m_def]
    have upd: "Data_update k i upd w = (None, save (w\<lparr> state := set_collection k
            (JArr (rs[m := JObj (assign_all (spread (rs ! m)) upd)])) (state w) \<rparr>))"
      using True Data_update_records[OF recs] by (simp add: rs_def Let_def m_def)
    have uniq: "n = m" if "n < length rs" "field (rs ! n) ''id'' = JStr i"
      "\<forall>j < n. field (rs ! j) ''id'' \<noteq> JStr i" for n
      using that fi by (metis linorder_neqE_nat)
    obtain kvs where kvs: "rs ! m = JObj kvs"
      using objs fi(1) by (metis is_object.elims(2) list_all_length)
    have ex: "\<exists>r \<in> set rs. field r ''id'' = JStr i"
      using True by (simp add: list_ex_iff)
    have named: "\<forall>(f, v) \<in> set upd. own (assign_all kvs upd) f = v"
      using own_assign_all_named[OF dist] by auto
    show ?thesis
      using ex named
      by (auto simp: upd Let_def rs_def[symmetric] collection_set_collection kvs
            own_assign_all_other fi(1) dest!: uniq)
  qed
qed

theorem Data_update_merge_witness:
  "records (collection Students (state seeded)) \<and>
   distinct (map fst [(''grade'', JStr ''2'')]) \<and>
   fst (Data_update Students ''s1'' [(''grade'', JStr ''2'')] seeded) = None \<and>
   field (elems (students (state (snd
     (Data_update Students ''s1'' [(''grade'', JStr ''2'')] seeded)))) ! 0) ''grade'' = JStr ''2'' \<and>
   field (elems (students (state (snd
     (Data_update Students ''s1'' [(''grade'', JStr ''2'')] seeded)))) ! 0) ''lastName''
     = JStr ''Johnson'' \<and>
   snd (Data_update Students ''s9'' [(''grade'', JStr ''2'')] seeded) = seeded"
proof -
  have r: "records (collection Students (state seeded))"
    by (simp add: seeded_def initial_def S1_def)
  have d: "distinct (map fst [(''grade'', JStr ''2'')])" by simp
  show ?thesis
    using r d Data_update_merge [OF r d, of "''s1''"] Data_update_merge [OF r d, of "''s9''"]
    by (simp add: Let_def) (simp add: seeded_def initial_def S1_def own_def)
qed


lemma jsonify_clean: "json_clean v \<Longrightarrow> jsonify v = v"
proof (induction v)
  case (JArr xs)
  then show ?case by (simp add: list_all_iff map_idI)
next
  case (JObj kvs)
  have "\<forall>kv \<in> set kvs. snd kv \<noteq> JUndefined"
    using JObj.prems by (auto simp: list_all_iff)
  then have f: "filter (\<lambda>(k, v). v \<noteq> JUndefined) kvs = kvs"
    by (auto simp: filter_id_conv)
  have "map (\<lambda>(k, v). (k, jsonify v)) kvs = kvs"
  proof (rule map_idI)
    fix kv assume kv: "kv \<in> set kvs"
    obtain k v where e: "kv = (k, v)" by (cases kv)
    have "json_clean v" using JObj.prems kv e by (auto simp: list_all_iff)
    moreover have "v \<in> Basic_BNFs.snds kv" by (simp add: e)
    ultimately have "jsonify v = v" using JObj.IH kv by blast
    then show "(case kv of (k, v) \<Rightarrow> (k, jsonify v)) = kv" by (simp add: e)
  qed
  then show ?case by (simp add: f)
qed simp_all

lemma saved_once_save: "saved_once w (save (w\<lparr> state := s \<rparr>))"
  by (simp add: saved_once_def save_def Let_def)

lemma Data_add_records:
  "records (collection k (state w)) \<Longrightarrow>
   Data_add k item w = (None, save (w\<lparr> state := set_collection k
       (JArr (elems (collection k (state w)) @ [item])) (state w) \<rparr>))"
  by (cases "collection k (state w)") (simp_all add: Data_add_def)

lemma records_collection: "well_formed s \<Longrightarrow> records (collection k s)"
  by (cases k) (simp_all add: well_formed_def)






lemma id_in_iff:
  "id_in v coll \<longleftrightarrow> (\<exists>x. v = JStr x \<and> (\<exists>r \<in> set (elems coll). field r ''id'' = JStr x))"
  by (cases v) (simp_all add: id_in_def list_ex_iff)

lemma id_in_mono:
  "id_in v c \<Longrightarrow> \<forall>r \<in> set (elems c). \<exists>r' \<in> set (elems c'). field r' ''id'' = field r ''id''
   \<Longrightarrow> id_in v c'"
  unfolding id_in_iff by metis

lemma id_in_filter:
  assumes "id_in v (JArr rs)" "v \<noteq> JStr i"
  shows "id_in v (JArr (filter (\<lambda>r. field r ''id'' \<noteq> JStr i) rs))"
  using assms unfolding id_in_iff by (auto; metis jsval.inject(3))

lemma field_unassign_id: "is_object c \<Longrightarrow> field (unassign i c) ''id'' = field c ''id''"
  by (cases "field c ''teacherId'' = JStr i") (simp_all add: unassign_hit unassign_miss)

lemma id_in_unassign:
  "list_all is_object cs \<Longrightarrow> id_in v (JArr (map (unassign i) cs)) = id_in v (JArr cs)"
  unfolding id_in_iff by (auto simp: list_all_iff field_unassign_id)

lemma ref_integrity_remove:
  assumes wf: "well_formed (state w)" and ri: "ref_integrity (state w)"
  shows "ref_integrity (state (snd (Data_remove k i w)))"
proof -
  obtain ss ts cs es where
    eqs: "students (state w) = JArr ss" "teachers (state w) = JArr ts"
         "classes (state w) = JArr cs" "enrollments (state w) = JArr es"
    and objs: "list_all is_object ss" "list_all is_object ts"
         "list_all is_object cs" "list_all is_object es"
    using wf records_elems unfolding well_formed_def by metis
  show ?thesis
  proof (cases k)
    case Teachers
    then show ?thesis
      using ri eqs objs
      by (simp add: Data_remove_well_formed(1)[OF wf] ref_integrity_def refers_def id_in_unassign)
  next
    case Students
    then show ?thesis
      using ri eqs
      by (auto simp: Data_remove_well_formed(2)[OF wf] ref_integrity_def refers_def
            list_all_iff intro: id_in_filter)
  next
    case Classes
    then show ?thesis
      using ri eqs
      by (auto simp: Data_remove_well_formed(3)[OF wf] ref_integrity_def refers_def
            list_all_iff intro: id_in_filter)
  next
    case Enrollments
    then show ?thesis
      using ri eqs
      by (auto simp: Data_remove_well_formed(4)[OF wf] ref_integrity_def list_all_iff)
  qed
qed

lemma ref_integrity_add:
  assumes wf: "well_formed (state w)" and ri: "ref_integrity (state w)"
    and item: "k = Enrollments \<longrightarrow>
       refers item ''studentId'' (students (state w)) \<and>
       refers item ''classId'' (classes (state w))"
  shows "ref_integrity (state (snd (Data_add k item w)))"
proof -
  obtain ss ts cs es where
    eqs: "students (state w) = JArr ss" "teachers (state w) = JArr ts"
         "classes (state w) = JArr cs" "enrollments (state w) = JArr es"
    using wf records_elems unfolding well_formed_def by metis
  have mono: "\<And>v rs. id_in v (JArr rs) \<Longrightarrow> id_in v (JArr (rs @ [item]))"
    by (erule id_in_mono) auto
  show ?thesis
    using ri item eqs
    by (cases k)
      (auto simp: Data_add_records[OF records_collection[OF wf]] ref_integrity_def
         refers_def list_all_iff intro: mono)
qed

lemma ref_integrity_update:
  assumes wf: "well_formed (state w)" and ri: "ref_integrity (state w)"
    and keep_id: "k = Students \<or> k = Classes \<longrightarrow> (\<forall>v. (''id'', v) \<in> set upd \<longrightarrow> v = JStr i)"
    and refs: "k = Enrollments \<longrightarrow>
       (\<forall>v. (''studentId'', v) \<in> set upd \<longrightarrow> id_in v (students (state w))) \<and>
       (\<forall>v. (''classId'', v) \<in> set upd \<longrightarrow> id_in v (classes (state w)))"
  shows "ref_integrity (state (snd (Data_update k i upd w)))"
proof -
  define rs where "rs = elems (collection k (state w))"
  have recs: "records (collection k (state w))" by (rule records_collection[OF wf])
  have objs: "list_all is_object rs" and coll: "collection k (state w) = JArr rs"
    using recs records_elems unfolding rs_def by blast+
  show ?thesis
  proof (cases "list_ex (\<lambda>r. field r ''id'' = JStr i) rs")
    case False
    then show ?thesis
      using ri Data_update_records[OF recs] by (simp add: rs_def Let_def)
  next
    case True
    define m where "m = first_index i rs"
    note fi = first_index_props[OF True, folded m_def]
    obtain kvs where kvs: "rs ! m = JObj kvs"
      using objs fi(1) by (metis is_object.elims(2) list_all_length)
    define r' where "r' = JObj (assign_all kvs upd)"
    have "Data_update k i upd w = (None, save (w\<lparr> state := set_collection k
            (JArr (rs[m := JObj (assign_all (spread (rs ! m)) upd)])) (state w) \<rparr>))"
      using True Data_update_records[OF recs] unfolding rs_def m_def by (simp add: Let_def)
    then have upd: "state (snd (Data_update k i upd w)) =
        set_collection k (JArr (rs[m := r'])) (state w)"
      by (simp add: kvs r'_def)
    have fld: "\<And>f. f \<in> fst ` set upd \<Longrightarrow> \<exists>v. (f, v) \<in> set upd \<and> field r' f = v"
      "\<And>f. f \<notin> fst ` set upd \<Longrightarrow> field r' f = field (rs ! m) f"
      unfolding r'_def using own_assign_all_some by (simp_all add: kvs own_assign_all_other)
    show ?thesis
    proof (cases k)
      case Teachers
      then show ?thesis unfolding upd using ri by (simp add: ref_integrity_def)
    next
      case Enrollments
      have old: "id_in (field (rs ! m) ''studentId'') (students (state w))"
        "id_in (field (rs ! m) ''classId'') (classes (state w))"
        using ri coll fi(1) Enrollments
        by (simp_all add: ref_integrity_def refers_def list_all_length)
      have new: "id_in (field r' ''studentId'') (students (state w))"
        "id_in (field r' ''classId'') (classes (state w))"
        using fld[of "''studentId''"] fld[of "''classId''"] refs old Enrollments
        by metis+
      have "\<And>e. e \<in> set (rs[m := r']) \<Longrightarrow> e = r' \<or> e \<in> set rs"
        by (metis insertE set_update_subset_insert subsetD)
      then show ?thesis
        unfolding upd using ri coll Enrollments new
        by (auto simp: ref_integrity_def refers_def list_all_iff)
    next
      case Students
      have "field r' ''id'' = JStr i"
        using fld[of "''id''"] keep_id fi(2) Students by metis
      then have ids: "map (\<lambda>r. field r ''id'') (rs[m := r']) = map (\<lambda>r. field r ''id'') rs"
        using fi(1,2) by (simp add: map_update list_update_same_conv)
      have "\<And>v. id_in v (JArr (rs[m := r'])) = id_in v (JArr rs)"
        unfolding id_in_iff using ids by (metis (no_types, lifting) elems.simps(1) image_iff list.set_map)
      then show ?thesis
        unfolding upd using ri coll Students
        by (simp add: ref_integrity_def refers_def)
    next
      case Classes
      have "field r' ''id'' = JStr i"
        using fld[of "''id''"] keep_id fi(2) Classes by metis
      then have ids: "map (\<lambda>r. field r ''id'') (rs[m := r']) = map (\<lambda>r. field r ''id'') rs"
        using fi(1,2) by (simp add: map_update list_update_same_conv)
      have "\<And>v. id_in v (JArr (rs[m := r'])) = id_in v (JArr rs)"
        unfolding id_in_iff using ids by (metis (no_types, lifting) elems.simps(1) image_iff list.set_map)
      then show ?thesis
        unfolding upd using ri coll Classes
        by (simp add: ref_integrity_def refers_def)
    qed
  qed
qed


text \<open>
  Claim C1, as the repository has it. On a well-formed snapshot whose enrollments all refer
  to existing students and classes, \<open>Data.remove\<close> keeps that property for every entity kind
  and id. \<open>Data.add\<close> keeps it for students, teachers and classes, and for an enrollment
  whose \<open>studentId\<close> and \<open>classId\<close> refer to existing records. \<open>Data.update\<close> keeps it for
  teachers; for students and classes when the partial record leaves the id as it is; for
  enrollments when the \<open>studentId\<close> and \<open>classId\<close> it names are ids of existing records.
  The operations themselves check none of this: they store what they are given.
\<close>

theorem referential_integrity_kept:
  assumes wf: "well_formed (state w)" and ri: "ref_integrity (state w)"
  shows "ref_integrity (state (snd (Data_remove k i w))) \<and>
    ((k = Enrollments \<longrightarrow>
        refers item ''studentId'' (students (state w)) \<and>
        refers item ''classId'' (classes (state w))) \<longrightarrow>
     ref_integrity (state (snd (Data_add k item w)))) \<and>
    ((k = Students \<or> k = Classes \<longrightarrow> (\<forall>v. (''id'', v) \<in> set upd \<longrightarrow> v = JStr i)) \<and>
     (k = Enrollments \<longrightarrow>
        (\<forall>v. (''studentId'', v) \<in> set upd \<longrightarrow> id_in v (students (state w))) \<and>
        (\<forall>v. (''classId'', v) \<in> set upd \<longrightarrow> id_in v (classes (state w)))) \<longrightarrow>
     ref_integrity (state (snd (Data_update k i upd w))))"
  using ref_integrity_remove [OF wf ri] ref_integrity_add [OF wf ri]
    ref_integrity_update [OF wf ri]
  by blast

lemma ref_integrity_seeded: "ref_integrity (state seeded)"
  by (simp add: ref_integrity_def refers_def id_in_def seeded_def initial_def
        S1_def C1_def E1_def own_def)

theorem referential_integrity_kept_witness:
  "well_formed (state seeded) \<and> ref_integrity (state seeded) \<and>
   ref_integrity (state (snd (Data_remove Students ''s1'' seeded))) \<and>
   ref_integrity (state (snd (Data_add Enrollments E1 seeded))) \<and>
   ref_integrity (state (snd (Data_update Students ''s1'' [(''grade'', JStr ''2'')] seeded)))"
proof -
  have e: "refers E1 ''studentId'' (students (state seeded)) \<and>
           refers E1 ''classId'' (classes (state seeded))"
    by (simp add: refers_def id_in_def seeded_def initial_def S1_def C1_def E1_def own_def)
  show ?thesis
    using e
      referential_integrity_kept [OF well_formed_seeded ref_integrity_seeded,
        of Students "''s1''" E1 "[(''grade'', JStr ''2'')]"]
      referential_integrity_kept [OF well_formed_seeded ref_integrity_seeded,
        of Enrollments "''s1''" E1 "[]"]
    by (simp add: well_formed_seeded ref_integrity_seeded)
qed

text \<open>Adding an enrollment of a student that does not exist to the seeded scenario leaves
  a dangling reference: the claim as stated fails for \<open>Data.add\<close>.\<close>

theorem referential_integrity_add_counterexample:
  "well_formed (state seeded) \<and> ref_integrity (state seeded) \<and>
   fst (Data_add Enrollments E2 seeded) = None \<and>
   \<not> ref_integrity (state (snd (Data_add Enrollments E2 seeded)))"
  by (simp add: well_formed_seeded ref_integrity_seeded)
     (simp add: Data_add_def ref_integrity_def refers_def id_in_def seeded_def initial_def
        S1_def C1_def E1_def E2_def own_def)







section \<open>Properties of import and restore\<close>


lemma overlay_array: "overlay keys (JArr xs) s = Inr s"
  by (induction keys) simp_all

lemma deepClone_clean: "json_clean v \<Longrightarrow> deepClone v = Inr v"
proof -
  assume c: "json_clean v"
  then have "v \<noteq> JUndefined" by auto
  then show ?thesis by (simp add: deepClone_def JSON_stringify_def jsonify_clean[OF c])
qed

lemma own_clean:
  "json_clean (JObj kvs) \<Longrightarrow> k \<in> set (map fst kvs) \<Longrightarrow> json_clean (own kvs k)"
proof -
  assume c: "json_clean (JObj kvs)" and k: "k \<in> set (map fst kvs)"
  then obtain v where v: "map_of kvs k = Some v"
    by (metis domD dom_map_of_conv_image_fst list.set_map)
  then have "(k, v) \<in> set kvs" by (rule map_of_SomeD)
  then have "json_clean v" using c by (auto simp: list_all_iff)
  then show ?thesis by (simp add: own_def v)
qed

lemma overlay_object:
  "json_clean (JObj kvs) \<Longrightarrow> overlay keys (JObj kvs) s = Inr (overlaid keys (JObj kvs) s)"
proof (induction keys arbitrary: s)
  case Nil
  then show ?case by (simp add: overlaid_def)
next
  case (Cons key keys)
  show ?case
  proof (cases "key_name key \<in> set (map fst kvs)")
    case True
    then show ?thesis
      using Cons own_clean[OF Cons.prems True]
      by (simp add: deepClone_clean overlaid_def)
  next
    case False
    then show ?thesis using Cons by (simp add: overlaid_def)
  qed
qed

lemma top_field_overlaid:
  "top_field key (overlaid recognized_keys data s) =
     (if key_name key \<in> set (own_keys data) then field data (key_name key) else top_field key s)"
  by (cases key) (simp_all add: overlaid_def recognized_keys_def)

lemma version_overlaid: "version (overlaid recognized_keys data s) = version s"
  by (simp add: overlaid_def recognized_keys_def)

lemma overlay_no_validation_error: "overlay keys (JObj kvs) s \<noteq> Inl InvalidData"
  by (induction keys arbitrary: s)
    (auto simp: deepClone_def JSON_stringify_def split: sum.splits bool.splits)

lemma initial_fields:
  "students initial = JArr []" "teachers initial = JArr []" "classes initial = JArr []"
  "enrollments initial = JArr []" "theme initial = JStr ''dark''"
  "version initial = JStr ''1.0.0''"
  by (simp_all add: initial_def)

text \<open>
  Claim C6, as the code has it. For data as \<open>JSON.parse\<close> returns them,
  \<open>validateAndLoadData\<close> fails exactly when the data are neither a record nor an array, that
  is when they are \<open>null\<close>, a boolean, a number or a string; it then throws the validation
  error and leaves the world as it was. Otherwise it returns normally with a state that has
  the version of the default snapshot and, for every recognised key, the value the data
  give it (a copy, equal to the original) if the data have the key and the default
  otherwise; no other key of the data has any effect; the state is saved once.
\<close>

theorem validateAndLoadData_overlay:
  assumes clean: "json_clean data"
  shows "(fst (validateAndLoadData data w) \<noteq> None \<longleftrightarrow> \<not> (is_object data \<or> is_array data)) \<and>
    (fst (validateAndLoadData data w) \<noteq> None \<longrightarrow>
       fst (validateAndLoadData data w) = Some InvalidData \<and>
       snd (validateAndLoadData data w) = w) \<and>
    (fst (validateAndLoadData data w) = None \<longrightarrow>
       version (state (snd (validateAndLoadData data w))) = version initial \<and>
       (\<forall>key. top_field key (state (snd (validateAndLoadData data w))) =
          (if key_name key \<in> set (own_keys data) then field data (key_name key)
           else top_field key initial)) \<and>
       saved_once w (snd (validateAndLoadData data w)))"
proof (cases data)
  case (JArr xs)
  then show ?thesis
    by (simp add: validateAndLoadData_def overlay_array saved_once_save)
next
  case (JObj kvs)
  then show ?thesis
    using clean
    by (simp add: validateAndLoadData_def overlay_object saved_once_save
          top_field_overlaid version_overlaid)
qed (use clean in \<open>simp_all add: validateAndLoadData_def\<close>)

theorem validateAndLoadData_overlay_witness:
  "json_clean backup \<and>
   fst (validateAndLoadData backup seeded) = None \<and>
   students (state (snd (validateAndLoadData backup seeded))) = JArr [S1] \<and>
   teachers (state (snd (validateAndLoadData backup seeded))) = JArr [] \<and>
   theme (state (snd (validateAndLoadData backup seeded))) = JStr ''light'' \<and>
   json_clean (JNum 5) \<and>
   validateAndLoadData (JNum 5) seeded = (Some InvalidData, seeded)"
proof -
  have b: "json_clean backup" by (simp add: backup_def S1_def)
  have n: "json_clean (JNum 5)" by simp
  have r: "fst (validateAndLoadData backup seeded) = None"
    using validateAndLoadData_overlay [OF b, of seeded] by (simp add: backup_def)
  have f: "\<And>key. top_field key (state (snd (validateAndLoadData backup seeded))) =
          (if key_name key \<in> set (own_keys backup) then field backup (key_name key)
           else top_field key initial)"
    using validateAndLoadData_overlay [OF b, of seeded] r by blast
  have "validateAndLoadData (JNum 5) seeded = (Some InvalidData, seeded)"
    using validateAndLoadData_overlay [OF n, of seeded]
    by (cases "validateAndLoadData (JNum 5) seeded") simp
  then show ?thesis
    using b r f [of K_students] f [of K_teachers] f [of K_theme]
    by (simp add: backup_def own_def initial_fields)
qed

text \<open>A JSON array is not a structured record, yet \<open>validateAndLoadData\<close> accepts it and
  replaces the seeded state by the default snapshot.\<close>

theorem validateAndLoadData_array_counterexample:
  "\<not> structured_record (JArr []) \<and> json_clean (JArr []) \<and>
   fst (validateAndLoadData (JArr []) seeded) = None \<and>
   state (snd (validateAndLoadData (JArr []) seeded)) = initial \<and>
   students (state seeded) \<noteq> students initial"
  by (simp add: structured_record_def validateAndLoadData_def overlay_array seeded_def
        initial_def)

text \<open>
  Claim C10. No array and no object is rejected by the validation of
  \<open>validateAndLoadData\<close>. For every array the recognised keys are all missing, so that the
  state is replaced by the default snapshot, with empty collections and the dark theme, and
  saved.
\<close>

theorem validateAndLoadData_array:
  "validateAndLoadData (JArr xs) w = (None, save (w\<lparr> state := initial \<rparr>)) \<and>
   state (snd (validateAndLoadData (JArr xs) w)) = initial \<and>
   saved_once w (snd (validateAndLoadData (JArr xs) w)) \<and>
   students initial = JArr [] \<and> teachers initial = JArr [] \<and> classes initial = JArr [] \<and>
   enrollments initial = JArr [] \<and> theme initial = JStr ''dark'' \<and>
   fst (validateAndLoadData (JObj kvs) w) \<noteq> Some InvalidData"
proof -
  have "fst (validateAndLoadData (JObj kvs) w) \<noteq> Some InvalidData"
    using overlay_no_validation_error [of recognized_keys kvs initial]
    by (auto simp: validateAndLoadData_def split: sum.splits)
  then show ?thesis
    by (simp add: validateAndLoadData_def overlay_array saved_once_save initial_fields)
qed

section \<open>Properties of the query engine\<close>



subsection \<open>Case of letters\<close>
















subsection \<open>Sorting\<close>

lemma sort_insert_total:
  "(\<And>y. y \<in> set ys \<Longrightarrow> cmp x y = Inr (c x y)) \<Longrightarrow>
   sort_insert cmp x ys = Inr (insert_by c x ys)"
  by (induction ys) auto

lemma set_insert_by: "set (insert_by c x ys) = insert x (set ys)"
  by (induction ys) auto

lemma mset_insert_by: "mset (insert_by c x ys) = add_mset x (mset ys)"
  by (induction ys) auto

lemma mset_sort_by: "mset (sort_by c xs) = mset xs"
  by (induction xs) (simp_all add: mset_insert_by)

lemma set_sort_by: "set (sort_by c xs) = set xs"
  by (induction xs) (simp_all add: set_insert_by)

lemma array_sort_total:
  "(\<And>x y. x \<in> set xs \<Longrightarrow> y \<in> set xs \<Longrightarrow> cmp x y = Inr (c x y)) \<Longrightarrow>
   array_sort cmp xs = Inr (sort_by c xs)"
proof (induction xs)
  case Nil
  then show ?case by simp
next
  case (Cons x xs)
  have "array_sort cmp xs = Inr (sort_by c xs)" using Cons by simp
  moreover have "sort_insert cmp x (sort_by c xs) = Inr (insert_by c x (sort_by c xs))"
    by (rule sort_insert_total) (simp add: Cons.prems set_sort_by)
  ultimately show ?case by simp
qed

lemma sorted_insert_by:
  assumes tot: "\<And>a b. 0 < c a b \<Longrightarrow> c b a \<le> 0"
    and tr: "\<And>a b d. c a b \<le> 0 \<Longrightarrow> c b d \<le> 0 \<Longrightarrow> c a d \<le> 0"
  shows "sorted_wrt (\<lambda>a b. c a b \<le> 0) ys \<Longrightarrow> sorted_wrt (\<lambda>a b. c a b \<le> 0) (insert_by c x ys)"
proof (induction ys)
  case Nil
  then show ?case by simp
next
  case (Cons y ys)
  show ?case
  proof (cases "c x y \<le> 0")
    case True
    then show ?thesis using Cons.prems tr by auto
  next
    case False
    then have "c y x \<le> 0" using tot by simp
    then show ?thesis using False Cons by (auto simp: set_insert_by)
  qed
qed

lemma sorted_sort_by:
  assumes "\<And>a b. 0 < c a b \<Longrightarrow> c b a \<le> 0"
    and "\<And>a b d. c a b \<le> 0 \<Longrightarrow> c b d \<le> 0 \<Longrightarrow> c a d \<le> 0"
  shows "sorted_wrt (\<lambda>a b. c a b \<le> 0) (sort_by c xs)"
  by (induction xs) (simp_all add: sorted_insert_by[OF assms])

lemma filter_insert_by:
  assumes "\<And>y. y \<in> set ys \<Longrightarrow> P x \<Longrightarrow> P y \<Longrightarrow> c x y \<le> 0"
  shows "filter P (insert_by c x ys) = (if P x then x # filter P ys else filter P ys)"
  using assms by (induction ys) auto

lemma filter_sort_by:
  assumes "\<And>x y. P x \<Longrightarrow> P y \<Longrightarrow> c x y \<le> 0"
  shows "filter P (sort_by c xs) = filter P xs"
  by (induction xs) (simp_all add: filter_insert_by assms)

lemma code_compare_anti: "code_compare a b < 0 \<longleftrightarrow> 0 < code_compare b a"
  by (induction a b rule: code_compare.induct) simp_all

lemma code_compare_Cons:
  "code_compare (c # s) (d # t) \<le> 0 \<longleftrightarrow>
     (of_char c :: nat) < of_char d \<or> ((of_char c :: nat) = of_char d \<and> code_compare s t \<le> 0)"
  by auto

lemma code_compare_trans:
  "code_compare a b \<le> 0 \<Longrightarrow> code_compare b d \<le> 0 \<Longrightarrow> code_compare a d \<le> 0"
proof (induction a arbitrary: b d)
  case Nil
  then show ?case by (cases d) simp_all
next
  case (Cons c s)
  from Cons.prems(1) obtain y t where b: "b = y # t" by (cases b) auto
  from Cons.prems(2) b obtain z u where d: "d = z # u" by (cases d) auto
  have 1: "(of_char c :: nat) < of_char y \<or> ((of_char c :: nat) = of_char y \<and> code_compare s t \<le> 0)"
    using Cons.prems(1) unfolding b code_compare_Cons .
  have 2: "(of_char y :: nat) < of_char z \<or> ((of_char y :: nat) = of_char z \<and> code_compare t u \<le> 0)"
    using Cons.prems(2) unfolding b d code_compare_Cons .
  have "(of_char c :: nat) < of_char z \<or> ((of_char c :: nat) = of_char z \<and> code_compare s u \<le> 0)"
    using 1 2 Cons.IH[of t u] by (metis less_trans)
  then show ?case unfolding d code_compare_Cons .
qed

lemma consistent_code_compare: "consistent code_compare"
  unfolding consistent_def using code_compare_anti code_compare_trans by blast

lemma key_compare_records:
  "is_object a \<Longrightarrow> is_object b \<Longrightarrow>
   key_compare lc key a b = Inr (lc (field_text a key) (field_text b key))"
  by (cases key) (simp_all add: key_compare_def get_prop_object)

lemma is_object_jsonify: "is_object r \<Longrightarrow> is_object (jsonify r)"
  by (cases r) simp_all

lemma sortBy_records:
  assumes "list_all is_object list"
  shows "sortBy lc list key =
     Inr (sort_by (\<lambda>a b. lc (field_text a key) (field_text b key)) (map jsonify list))"
proof -
  have "\<And>x. x \<in> set (map jsonify list) \<Longrightarrow> is_object x"
    using assms by (auto simp: list_all_iff is_object_jsonify)
  then have "array_sort (key_compare lc key) (map jsonify list) =
     Inr (sort_by (\<lambda>a b. lc (field_text a key) (field_text b key)) (map jsonify list))"
    by (intro array_sort_total) (simp add: key_compare_records)
  then show ?thesis
    by (simp add: sortBy_def deepClone_def JSON_stringify_def)
qed

text \<open>
  What holds of \<open>sortBy\<close> for every key. For a list of records, a key that is computed or
  is a name read as an own property, and a comparison of the locale that orders strings
  consistently, \<open>sortBy\<close> returns a list of copies of the records (the input is a value
  and stays as it is) that is a rearrangement of the copies, is ordered by the comparison
  of the string representations of the key, and is stable: the records whose keys compare
  equal to any given string appear in their input order. For a key given by name a value
  that is absent, \<open>undefined\<close> or \<open>null\<close> is taken as the empty string.
\<close>

lemma sortBy_sorted_stable:
  assumes recs: "list_all is_object list" and cons: "consistent localeCompare"
    and name: "own_accessor key"
  shows "(let ys = sort_by (\<lambda>a b. localeCompare (field_text a key) (field_text b key))
                     (map jsonify list) in
     sortBy localeCompare list key = Inr ys \<and>
     mset ys = mset (map jsonify list) \<and>
     sorted_wrt (\<lambda>a b. localeCompare (field_text a key) (field_text b key) \<le> 0) ys \<and>
     (\<forall>s. filter (\<lambda>r. localeCompare (field_text r key) s = 0) ys =
          filter (\<lambda>r. localeCompare (field_text r key) s = 0) (map jsonify list))) \<and>
    (list_all json_clean list \<longrightarrow> map jsonify list = list) \<and>
    (\<forall>r f. is_object r \<and> own_name f \<and> nullish (field r f) \<longrightarrow>
       getter r (Named f) = Inr (JStr ''''))"
proof -
  let ?c = "\<lambda>a b. localeCompare (field_text a key) (field_text b key)"
  have anti: "\<And>a b. localeCompare a b < 0 \<longleftrightarrow> 0 < localeCompare b a"
    and tr: "\<And>a b c. localeCompare a b \<le> 0 \<Longrightarrow> localeCompare b c \<le> 0 \<Longrightarrow> localeCompare a c \<le> 0"
    using cons unfolding consistent_def by blast+
  have tot: "\<And>a b. 0 < ?c a b \<Longrightarrow> ?c b a \<le> 0"
    using anti by (simp add: order.strict_implies_order)
  have tr': "\<And>a b d. ?c a b \<le> 0 \<Longrightarrow> ?c b d \<le> 0 \<Longrightarrow> ?c a d \<le> 0"
    using tr by blast
  have sorted: "sorted_wrt (\<lambda>a b. ?c a b \<le> 0) (sort_by ?c (map jsonify list))"
    by (rule sorted_sort_by[of ?c, OF tot tr'])
  have stable: "filter (\<lambda>r. localeCompare (field_text r key) s = 0) (sort_by ?c (map jsonify list)) =
          filter (\<lambda>r. localeCompare (field_text r key) s = 0) (map jsonify list)" for s
  proof (rule filter_sort_by)
    fix x y
    assume x: "localeCompare (field_text x key) s = 0" and y: "localeCompare (field_text y key) s = 0"
    have "localeCompare s (field_text y key) = 0"
      using anti[of s "field_text y key"] anti[of "field_text y key" s] y by linarith
    then show "?c x y \<le> 0" using x tr[of "field_text x key" s "field_text y key"] by simp
  qed
  have clean: "list_all json_clean list \<longrightarrow> map jsonify list = list"
    by (simp add: list_all_iff map_idI jsonify_clean)
  have named: "\<forall>r f. is_object r \<and> own_name f \<and> nullish (field r f) \<longrightarrow>
       getter r (Named f) = Inr (JStr '''')"
    by (simp add: get_prop_object)
  have ms: "mset (sort_by ?c (map jsonify list)) = mset (map jsonify list)"
    by (rule mset_sort_by)
  show ?thesis
    unfolding Let_def
    using sortBy_records[OF recs, of localeCompare key] ms sorted stable clean named
    by blast
qed

lemma sortBy_example:
  "sort_by (\<lambda>a b. code_compare (field_text a (Named ''lastName'')) (field_text b (Named ''lastName'')))
     (map jsonify [T1, S1]) = [S1, T1]"
  by code_simp

lemma sortBy_sorted_stable_example:
  "list_all is_object [T1, S1] \<and> consistent code_compare \<and>
   own_accessor (Named ''lastName'') \<and>
   sortBy code_compare [T1, S1] (Named ''lastName'') = Inr [S1, T1] \<and>
   sorted_wrt (\<lambda>a b. code_compare (field_text a (Named ''lastName''))
                                    (field_text b (Named ''lastName'')) \<le> 0) [S1, T1]"
proof -
  have h: "list_all is_object [T1, S1]" by (simp add: S1_def T1_def)
  have n: "own_accessor (Named ''lastName'')"
    by (simp add: own_name_def object_prototype_names_def)
  show ?thesis
    using h n consistent_code_compare
      sortBy_sorted_stable [OF h consistent_code_compare n]
    unfolding Let_def sortBy_example by blast
qed

text \<open>
  Claim C9. \<open>sortBy\<close> is to treat an absent or undefined key value as the empty string.
  Its getter does so for a key given by name only, \<open>(x) => x[key] ?? ''\<close>; a key given as
  a function is called as it is, and \<open>String\<close> turns the \<open>undefined\<close> that it returns into
  the string \<open>undefined\<close>. For the record \<open>r1\<close> without a field \<open>k\<close>, the record \<open>r2\<close> with
  \<open>k\<close> equal to \<open>b\<close> and the key function \<open>x => x.k\<close>, the key of \<open>r1\<close> is \<open>undefined\<close> and
  \<open>sortBy\<close> puts \<open>r1\<close> behind \<open>r2\<close>; the empty string is ordered before \<open>b\<close>, so that the
  claim has \<open>r1\<close> in front, where \<open>sortBy\<close> with the key name \<open>k\<close> does put it.
\<close>

theorem sortBy_computed_undefined:
  "getter R1 (Computed (\<lambda>x. field x ''k'')) = Inr JUndefined \<and>
   ToString JUndefined = ''undefined'' \<and>
   code_compare '''' ''b'' < 0 \<and>
   sortBy code_compare [R1, R2] (Computed (\<lambda>x. field x ''k'')) = Inr [R2, R1] \<and>
   sortBy code_compare [R1, R2] (Named ''k'') = Inr [R1, R2]"
  by code_simp

subsection \<open>Grouping and the teacher-load report\<close>

lemma first_occurrences_snoc:
  "first_occurrences (xs @ [k]) = (if k \<in> set xs then first_occurrences xs else first_occurrences xs @ [k])"
  by (simp add: first_occurrences_def)

lemma set_first_occurrences [simp]: "set (first_occurrences xs) = set xs"
  by (simp add: first_occurrences_def)

lemma distinct_first_occurrences [simp]: "distinct (first_occurrences xs)"
  by (simp add: first_occurrences_def)

lemma push_group_map:
  "distinct gs \<Longrightarrow>
   push_group (map (\<lambda>g. (g, f g)) gs) key x =
     (if key \<in> set gs then map (\<lambda>g. (g, if g = key then f g @ [x] else f g)) gs
      else map (\<lambda>g. (g, f g)) gs @ [(key, [x])])"
  by (induction gs) auto

lemma push_group_groups_of:
  "push_group (groups_of k pre) (k x) x = groups_of k (pre @ [x])"
proof (cases "k x \<in> set (map k pre)")
  case True
  then show ?thesis
    by (simp add: groups_of_def push_group_map first_occurrences_snoc del: set_map)
next
  case False
  have ne: "\<And>g. g \<in> set pre \<Longrightarrow> k g \<noteq> k x" using False by (metis image_eqI list.set_map)
  then have "filter (\<lambda>y. k y = k x) pre = []" by (simp add: filter_empty_conv)
  moreover note ne
  ultimately show ?thesis
    using False
    by (simp add: groups_of_def push_group_map first_occurrences_snoc del: set_map)
       (auto simp: image_iff)
qed

lemma group_loop_total:
  assumes "\<And>x. x \<in> set xs \<Longrightarrow>
     key_of kf x = Inr (kv x) \<and> ToString (kv x) \<notin> set object_prototype_names"
  shows "group_loop (groups_of (\<lambda>x. ToString (kv x)) pre) kf xs =
         Inr (groups_of (\<lambda>x. ToString (kv x)) (pre @ xs))"
  using assms
proof (induction xs arbitrary: pre)
  case Nil
  then show ?case by simp
next
  case (Cons x xs)
  have "group_loop (groups_of (\<lambda>x. ToString (kv x)) (pre @ [x])) kf xs =
         Inr (groups_of (\<lambda>x. ToString (kv x)) ((pre @ [x]) @ xs))"
    by (rule Cons.IH) (simp add: Cons.prems)
  then show ?case
    using Cons.prems[of x] push_group_groups_of[of "\<lambda>x. ToString (kv x)" pre x] by simp
qed

lemma Object_entries_plain:
  "\<forall>kv \<in> set kvs. \<not> is_array_index (fst kv) \<Longrightarrow> Object_entries kvs = kvs"
proof -
  assume a: "\<forall>kv \<in> set kvs. \<not> is_array_index (fst kv)"
  then have "filter (\<lambda>kv. is_array_index (fst kv)) kvs = []"
    by (simp add: filter_empty_conv)
  moreover have "filter (\<lambda>kv. \<not> is_array_index (fst kv)) kvs = kvs"
    using a by (simp add: filter_id_conv)
  ultimately show ?thesis by (simp add: Object_entries_def)
qed

lemma groupBy_total:
  assumes "\<And>x. x \<in> set xs \<Longrightarrow>
     key_of kf x = Inr (kv x) \<and> ToString (kv x) \<notin> set object_prototype_names"
  shows "groupBy xs kf = Inr (groups_of (\<lambda>x. ToString (kv x)) xs)"
  using group_loop_total[OF assms, of xs "[]"]
  by (simp add: groupBy_def groups_of_def first_occurrences_def)

lemma teacher_key_object:
  "is_object c \<Longrightarrow>
   teacher_key c = Inr (if falsy (field c ''teacherId'') then JStr ''Unassigned''
                        else field c ''teacherId'')"
  by (simp add: teacher_key_def get_prop_object)

lemma array_find_records:
  "list_all is_object ts \<Longrightarrow>
   array_find (prop_is k i) ts = Inr (find (\<lambda>t. field t k = JStr i) ts)"
  by (induction ts) (simp_all add: prop_is_def get_prop_object)

lemma array_map_total:
  "(\<And>x. x \<in> set xs \<Longrightarrow> f x = Inr (g x)) \<Longrightarrow> array_map f xs = Inr (map g xs)"
  by (induction xs) simp_all

lemma teacher_row_records:
  assumes "records (teachers s)"
  shows "teacher_row s (k, cls) = Inr (bucket_label (elems (teachers s)) k, length cls)"
proof -
  obtain ts where ts: "teachers s = JArr ts" "list_all is_object ts"
    using assms records_elems by metis
  show ?thesis
  proof (cases "find (\<lambda>t. field t ''id'' = JStr k) ts")
    case None
    then show ?thesis
      by (simp add: teacher_row_def ts array_find_records bucket_label_def)
  next
    case (Some t)
    then have "t \<in> set ts" by (metis find_Some_iff nth_mem)
    then have "is_object t" using ts(2) by (simp add: list_all_iff)
    then show ?thesis
      using Some
      by (simp add: teacher_row_def ts array_find_records bucket_label_def get_prop_object)
  qed
qed

lemma teacherLoad_records:
  assumes cl: "records (classes s)" and te: "records (teachers s)"
    and pl: "list_all (\<lambda>c. plain_bucket (class_bucket c)) (elems (classes s))"
  shows "teacherLoad s =
     Inr (let rows = map (\<lambda>k. (bucket_label (elems (teachers s)) k,
                               length (filter (\<lambda>c. class_bucket c = k) (elems (classes s)))))
                         (first_occurrences (map class_bucket (elems (classes s))))
          in if rows = [] then No_data else Rows rows)"
proof -
  obtain cs where cs: "classes s = JArr cs" "list_all is_object cs"
    using cl records_elems by metis
  have "groupBy cs (ByFunction teacher_key) =
        Inr (groups_of (\<lambda>c. ToString (if falsy (field c ''teacherId'') then JStr ''Unassigned''
                        else field c ''teacherId'')) cs)"
    by (rule groupBy_total)
      (use cs pl in \<open>simp add: teacher_key_object list_all_iff plain_bucket_def own_name_def
         class_bucket_def\<close>)
  then have g: "groupBy cs (ByFunction teacher_key) = Inr (groups_of class_bucket cs)"
    by (simp add: class_bucket_def[abs_def])
  have "\<forall>kv \<in> set (groups_of class_bucket cs). \<not> is_array_index (fst kv)"
    using pl by (auto simp: cs groups_of_def list_all_iff plain_bucket_def)
  then have e: "Object_entries (groups_of class_bucket cs) = groups_of class_bucket cs"
    by (rule Object_entries_plain)
  have m: "array_map (teacher_row s) (groups_of class_bucket cs) =
        Inr (map (\<lambda>(k, cls). (bucket_label (elems (teachers s)) k, length cls))
                 (groups_of class_bucket cs))"
    by (rule array_map_total) (auto simp: teacher_row_records[OF te])
  have "teacherLoad s =
     Inr (let rows = map (\<lambda>(k, cls). (bucket_label (elems (teachers s)) k, length cls))
                         (groups_of class_bucket cs)
          in if rows = [] then No_data else Rows rows)"
    by (simp add: teacherLoad_def cs g e m Let_def)
  then show ?thesis
    by (simp add: groups_of_def cs Let_def comp_def)
qed

lemma teacherLoad_after_T1: "teacherLoad (state after_T1) = Inr (Rows [(''Unassigned'', 1)])"
  by code_simp

lemma teacherLoad_after_C1: "teacherLoad (state after_C1) = Inr No_data"
  by code_simp

lemma teacherLoad_seeded: "teacherLoad (state seeded) = Inr (Rows [(''Alice Nguyen'', 1)])"
  by code_simp

lemma bucket_label_unresolved:
  "\<forall>t \<in> set ts. field t ''id'' \<noteq> JStr k \<Longrightarrow> bucket_label ts k = ''Unassigned''"
proof -
  assume "\<forall>t \<in> set ts. field t ''id'' \<noteq> JStr k"
  then have "find (\<lambda>t. field t ''id'' = JStr k) ts = None"
    by (simp add: find_None_iff)
  then show ?thesis by (simp add: bucket_label_def)
qed

text \<open>
  Claim C7, as the code has it. On a snapshot whose classes and teachers are arrays of
  records, and whose buckets have plain names, the teacher-load report has one row for each
  bucket of classes, in the order of the first class of each bucket, with the label of the
  bucket and the number of its classes, and the line "No data" when there is no class at
  all. The bucket of a class is
  its \<open>teacherId\<close>, and \<open>Unassigned\<close> when the \<open>teacherId\<close> is empty or missing; the label of
  a bucket is the name of the teacher with that id, and \<open>Unassigned\<close> when no teacher has
  it. In the seeded scenario the report shows \<open>Unassigned\<close> with one class after T1 is
  removed, and no row at all, but "No data", after C1 is removed as well.
\<close>

theorem teacherLoad_buckets:
  assumes cl: "records (classes s)" and te: "records (teachers s)"
    and pl: "list_all (\<lambda>c. plain_bucket (class_bucket c)) (elems (classes s))"
  shows "teacherLoad s =
      Inr (let rows = map (\<lambda>k. (bucket_label (elems (teachers s)) k,
                                length (filter (\<lambda>c. class_bucket c = k) (elems (classes s)))))
                          (first_occurrences (map class_bucket (elems (classes s))))
           in if rows = [] then No_data else Rows rows) \<and>
    (\<forall>c. falsy (field c ''teacherId'') \<longrightarrow> class_bucket c = ''Unassigned'') \<and>
    (\<forall>k. (\<forall>t \<in> set (elems (teachers s)). field t ''id'' \<noteq> JStr k) \<longrightarrow>
         bucket_label (elems (teachers s)) k = ''Unassigned'') \<and>
    teacherLoad (state after_T1) = Inr (Rows [(''Unassigned'', 1)]) \<and>
    teacherLoad (state after_C1) = Inr No_data"
  using teacherLoad_records [OF cl te pl] bucket_label_unresolved teacherLoad_after_T1
    teacherLoad_after_C1
  by (simp add: class_bucket_def)

theorem teacherLoad_buckets_witness:
  "records (classes (state seeded)) \<and> records (teachers (state seeded)) \<and>
   list_all (\<lambda>c. plain_bucket (class_bucket c)) (elems (classes (state seeded))) \<and>
   teacherLoad (state seeded) = Inr (Rows [(''Alice Nguyen'', 1)]) \<and>
   (let rows = map (\<lambda>k. (bucket_label (elems (teachers (state seeded))) k,
                 length (filter (\<lambda>c. class_bucket c = k) (elems (classes (state seeded))))))
               (first_occurrences (map class_bucket (elems (classes (state seeded)))))
    in if rows = [] then No_data else Rows rows) = Rows [(''Alice Nguyen'', 1)]"
proof -
  have c: "records (classes (state seeded))" and t: "records (teachers (state seeded))"
    using well_formed_seeded by (simp_all add: well_formed_def)
  have p: "list_all (\<lambda>c. plain_bucket (class_bucket c)) (elems (classes (state seeded)))"
    by code_simp
  show ?thesis
    using c t p teacherLoad_buckets [OF c t p] teacherLoad_seeded by simp
qed

text \<open>In the seeded scenario, after T1 and then C1 are removed no class is left: the
  report has no row \<open>Unassigned\<close> with count 0, it shows "No data".\<close>

theorem teacherLoad_scenario_counterexample:
  "classes (state after_C1) = JArr [] \<and> enrollments (state after_C1) = JArr [] \<and>
   teacherLoad (state after_C1) = Inr No_data \<and>
   teacherLoad (state after_C1) \<noteq> Inr (Rows [(''Unassigned'', 0)])"
  by code_simp

section \<open>Properties of the tabular import\<close>

lemma cells_loop_Cons:
  "cells_loop (ch # rest) cells cur inq =
     (if ch = quote then
        (if inq \<and> (case rest of [] \<Rightarrow> False | nx # _ \<Rightarrow> nx = quote)
         then cells_loop (tl rest) cells (cur @ [quote]) inq
         else cells_loop rest cells cur (\<not> inq))
      else if ch = comma \<and> \<not> inq then cells_loop rest (cells @ [cur]) [] inq
      else cells_loop rest cells (cur @ [ch]) inq)"
  by (cases rest) simp_all

lemma cells_loop_plain:
  "\<forall>c \<in> set s. c \<noteq> quote \<and> c \<noteq> comma \<Longrightarrow>
   cells_loop (s @ rest) cells cur False = cells_loop rest cells (cur @ s) False"
  by (induction s arbitrary: cur) (simp_all add: cells_loop_Cons del: cells_loop.simps)

lemma cells_loop_quoted:
  "(case rest of [] \<Rightarrow> True | nx # _ \<Rightarrow> nx \<noteq> quote) \<Longrightarrow>
   cells_loop (double_quotes s @ quote # rest) cells cur True = cells_loop rest cells (cur @ s) False"
proof (induction s arbitrary: cur)
  case Nil
  then show ?case by (cases rest) (simp_all add: cells_loop_Cons del: cells_loop.simps)
next
  case (Cons c s)
  then show ?case by (simp add: cells_loop_Cons del: cells_loop.simps)
qed

lemma cells_loop_esc:
  assumes "(case rest of [] \<Rightarrow> True | nx # _ \<Rightarrow> nx \<noteq> quote)"
  shows "cells_loop (esc f @ rest) cells cur False = cells_loop rest cells (cur @ f) False"
proof (cases "list_ex (\<lambda>c. c = quote \<or> c = comma \<or> c = LF) f")
  case True
  then show ?thesis
    using cells_loop_quoted[OF assms]
    by (simp add: esc_def cells_loop_Cons del: cells_loop.simps)
next
  case False
  then have "\<forall>c \<in> set f. c \<noteq> quote \<and> c \<noteq> comma" by (auto simp: list_ex_iff)
  then show ?thesis using False by (simp add: esc_def cells_loop_plain)
qed

lemma cells_loop_join:
  "fs \<noteq> [] \<Longrightarrow> cells_loop (join [comma] (map esc fs)) cells [] False = cells @ fs"
proof (induction fs arbitrary: cells rule: list_nonempty_induct)
  case (single f)
  show ?case using cells_loop_esc[of "[]" f cells "[]"] by simp
next
  case (cons f fs)
  obtain g gs where fs: "fs = g # gs" using cons.hyps by (cases fs) auto
  have "cells_loop (esc f @ comma # join [comma] (map esc fs)) cells [] False
        = cells_loop (comma # join [comma] (map esc fs)) cells ([] @ f) False"
    by (rule cells_loop_esc) (simp add: comma_def quote_def)
  also have "\<dots> = cells_loop (join [comma] (map esc fs)) (cells @ [f]) [] False"
    by (simp add: cells_loop_Cons comma_def quote_def del: cells_loop.simps)
  also have "\<dots> = (cells @ [f]) @ fs" by (rule cons.IH)
  finally show ?case by (simp add: fs)
qed

lemma parse_cells_esc: "fs \<noteq> [] \<Longrightarrow> parse_cells (join [comma] (map esc fs)) = fs"
  by (simp add: parse_cells_def cells_loop_join)

lemma keys_set_prop: "fst ` set (set_prop obj k v) = insert k (fst ` set obj)"
proof -
  have "dom (map_of (set_prop obj k v)) = insert k (dom (map_of obj))"
    by (simp add: map_of_set_prop)
  then show ?thesis by (simp add: dom_map_of_conv_image_fst)
qed

subsection \<open>Camel case\<close>

lemma not_alnum_consts: "\<not> is_alnum space" "\<not> is_alnum LF" "\<not> is_alnum CR"
  by code_simp+

lemma is_space_space: "is_space space"
  by code_simp

lemma letter_alnum: "is_letter c \<Longrightarrow> is_alnum c"
  by (simp add: is_alnum_def)

lemma alnum_not_space: "is_alnum c \<Longrightarrow> \<not> is_space c"
  by (auto simp: is_alnum_def is_letter_def is_space_def Let_def)

lemma alnum_neq_space: "is_alnum c \<Longrightarrow> c \<noteq> space"
  using not_alnum_consts by auto

lemma alnum_not_terminator: "is_alnum c \<Longrightarrow> \<not> is_line_terminator c"
  using not_alnum_consts by (auto simp: is_line_terminator_def)

text \<open>On the ASCII letters and digits the case mapping of the language is that of
  ASCII.\<close>

lemma upper_char_alnum: "is_alnum c \<Longrightarrow> upper_char c = ascii_upper c"
  by (auto simp: is_alnum_def is_letter_def upper_char_def ascii_upper_def Let_def)

lemma lower_char_letter: "is_letter c \<Longrightarrow> lower_char c = ascii_lower c"
  by (auto simp: is_letter_def lower_char_def ascii_lower_def Let_def)

lemma trimEnd_Cons:
  "trimEnd (c # x) =
     (if is_space c \<and> (\<forall>d \<in> set x. is_space d) then [] else c # trimEnd x)"
  by (auto simp: trimEnd_def dropWhile_append)

lemma trimEnd_Nil: "trimEnd [] = []"
  by (simp add: trimEnd_def)

lemma capitalize_Cons: "c \<noteq> space \<Longrightarrow> capitalize (c # y) = c # capitalize y"
  by (cases y) simp_all

lemma join_words_dropWhile:
  "join_words True (dropWhile (\<lambda>d. \<not> is_alnum d) cs) = join_words True cs"
  by (induction cs) simp_all

lemma dropWhile_Cons_not: "dropWhile P xs = d # ds \<Longrightarrow> \<not> P d"
  using hd_dropWhile[of P xs] by auto

text \<open>After a letter or digit, the two replacements of \<open>camel\<close> and the trimming between
  them join the words.\<close>

lemma capitalize_blanks: "capitalize (trimEnd (blanks cs)) = join_words False cs"
proof (induction cs rule: blanks.induct)
  case 1
  show ?case by (simp add: trimEnd_Nil)
next
  case (2 c cs)
  show ?case
  proof (cases "is_alnum c")
    case True
    then show ?thesis
      using 2(1)
      by (simp add: trimEnd_Cons trimEnd_Nil alnum_not_space capitalize_Cons alnum_neq_space)
  next
    case False
    show ?thesis
    proof (cases "dropWhile (\<lambda>d. \<not> is_alnum d) cs")
      case Nil
      have "join_words True cs = join_words True []"
        using join_words_dropWhile[of cs] Nil by simp
      then show ?thesis
        using False by (simp add: Nil is_space_space trimEnd_Cons trimEnd_Nil)
    next
      case (Cons d ds)
      have d: "is_alnum d" using dropWhile_Cons_not[OF Cons] by simp
      have ih: "capitalize (trimEnd (blanks ds)) = join_words False ds"
        using 2(2)[OF False] d
        by (simp add: Cons trimEnd_Cons trimEnd_Nil alnum_not_space capitalize_Cons
            alnum_neq_space)
      have "join_words True cs = join_words True (d # ds)"
        using join_words_dropWhile[of cs] Cons by simp
      then show ?thesis
        using False d ih
        by (simp add: Cons trimEnd_Cons trimEnd_Nil alnum_not_space alnum_not_terminator
            upper_char_alnum)
    qed
  qed
qed

lemma camel_from_letter:
  assumes "is_letter c"
  shows "lower_first (capitalize (trimEnd (c # blanks cs))) =
         ascii_lower c # join_words False cs"
  using assms letter_alnum[OF assms]
  by (simp add: trimEnd_Cons trimEnd_Nil alnum_not_space capitalize_Cons alnum_neq_space
      capitalize_blanks alnum_not_terminator lower_char_letter)

text \<open>\<open>camel\<close> computes the normal form; in particular it changes the case of ASCII
  letters only.\<close>

lemma camel_case_eq: "camel s = camel_case s"
proof (cases s)
  case Nil
  then show ?thesis
    by (simp add: camel_def camel_case_def separate_def trim_def trimEnd_Nil)
next
  case s: (Cons c cs)
  show ?thesis
  proof (cases "is_letter c")
    case True
    then show ?thesis
      using camel_from_letter[OF True, of cs] letter_alnum[OF True]
      by (simp add: s camel_def camel_case_def separate_def trim_def alnum_not_space)
  next
    case False
    show ?thesis
    proof (cases "dropWhile (\<lambda>d. \<not> is_letter d) cs")
      case Nil
      show ?thesis
        using False
        by (simp add: s Nil camel_def camel_case_def separate_def trim_def is_space_space
            trimEnd_Cons trimEnd_Nil)
    next
      case Cons2: (Cons d ds)
      have d: "is_letter d" using dropWhile_Cons_not[OF Cons2] by simp
      show ?thesis
        using False camel_from_letter[OF d, of ds] letter_alnum[OF d]
        by (simp add: s Cons2 camel_def camel_case_def separate_def trim_def is_space_space
            alnum_not_space)
    qed
  qed
qed

lemma camel_case_examples:
  "camel_case ''firstName'' = ''firstName'' \<and>
   camel_case ''First Name'' = ''firstName'' \<and>
   camel_case ''last-name'' = ''lastName'' \<and>
   camel_case ''  12 first_name-of student '' = ''firstNameOfStudent'' \<and>
   camel_case ''2nd e_mail'' = ''ndEMail'' \<and>
   camel_case ''DOB'' = ''dOB'' \<and>
   camel_case ''123'' = []"
  by code_simp

subsection \<open>Records of rows\<close>

lemma keys_row_fields:
  "fst ` set (row_fields hs cells obj) = fst ` set obj \<union> camel ` set hs"
  by (induction hs cells obj rule: row_fields.induct) (simp_all add: keys_set_prop)

lemma set_prop_fresh: "k \<notin> fst ` set obj \<Longrightarrow> set_prop obj k v = obj @ [(k, v)]"
  by (induction obj) auto

lemma trim_empty: "trim [] = []"
  by (simp add: trim_def trimEnd_def)

lemma row_fields_distinct:
  "distinct (map camel hs) \<Longrightarrow> camel ` set hs \<inter> fst ` set obj = {} \<Longrightarrow>
   row_fields hs cells obj =
     obj @ map (\<lambda>(h, c). (camel h, JStr (trim c))) (zip hs (pad_cells (length hs) cells))"
proof (induction hs cells obj rule: row_fields.induct)
  case (1 cells obj)
  then show ?case by simp
next
  case (2 h hs obj)
  have "camel ` set hs \<inter> fst ` set (set_prop obj (camel h) (JStr [])) = {}"
    using 2(2,3) by (auto simp: keys_set_prop)
  then show ?case
    using 2 by (simp add: set_prop_fresh trim_empty)
next
  case (3 h hs c cs obj)
  have "camel ` set hs \<inter> fst ` set (set_prop obj (camel h) (JStr (trim c))) = {}"
    using 3(2,3) by (auto simp: keys_set_prop)
  then show ?case
    using 3 by (simp add: set_prop_fresh)
qed

lemma parseCSV_nth:
  assumes "filter (\<lambda>l. l \<noteq> []) (split_lines t) = first # rest" "i < length rest"
  shows "parseCSV t ! i = JObj (row_fields (map trim (split_from comma [] first))
                                          (parse_cells (rest ! i)) [])"
  using assms by (simp add: parseCSV_def Let_def)

text \<open>
  Claim C5, as the code has it. \<open>parseCSV\<close> splits the text into lines, drops the empty
  ones, and takes every line after the first as one row: a line break ends a row also
  inside quotes. The names of the header line, split at commas and trimmed, are put in
  camel case by \<open>camel\<close>, which computes the normal form \<open>camel_case\<close> of every string:
  the name from its first letter on, its runs of letters and digits joined, the first in
  lower case and every later one starting in upper case. These names are the keys of
  every record; when they differ from each other, the record of a row pairs them in order
  with the trimmed cells of the row, a missing cell being empty. Within a line a quoted
  field may hold the comma, and two double quotes in it stand for one: the cells of a line
  written with the quoting of \<open>toCSV\<close> are the fields that were written. The text of the
  example yields the one record of Ada Lovelace, and so does a text with the headers
  \<open>First Name\<close> and \<open>last-name\<close>, under the keys \<open>firstName\<close> and \<open>lastName\<close>.
\<close>

theorem parseCSV_rows:
  "parseCSV ada_csv = [JObj [(''firstName'', JStr ''Ada''), (''lastName'', JStr ''Lovelace'')]] \<and>
   parseCSV names_csv =
     [JObj [(''firstName'', JStr ''Ada''), (''lastName'', JStr ''Lovelace, Countess''),
            (''ndEMail'', JStr ''a@b.org''), (''dOB'', JStr '''')]] \<and>
   (\<forall>s. camel s = camel_case s) \<and>
   (\<forall>fs. fs \<noteq> [] \<longrightarrow> parse_cells (join [comma] (map esc fs)) = fs) \<and>
   (\<forall>t. case filter (\<lambda>l. l \<noteq> []) (split_lines t) of
          [] \<Rightarrow> parseCSV t = []
        | first # rest \<Rightarrow>
            (let hs = map trim (split_from comma [] first) in
             length (parseCSV t) = length rest \<and>
             (\<forall>i < length rest.
                is_object (parseCSV t ! i) \<and>
                set (own_keys (parseCSV t ! i)) = camel_case ` set hs \<and>
                (distinct (map camel_case hs) \<longrightarrow>
                   parseCSV t ! i =
                     JObj (map (\<lambda>(h, c). (camel_case h, JStr (trim c)))
                               (zip hs (pad_cells (length hs) (parse_cells (rest ! i)))))))))"
proof -
  have a: "parseCSV ada_csv =
      [JObj [(''firstName'', JStr ''Ada''), (''lastName'', JStr ''Lovelace'')]]"
    by code_simp
  have n: "parseCSV names_csv =
     [JObj [(''firstName'', JStr ''Ada''), (''lastName'', JStr ''Lovelace, Countess''),
            (''ndEMail'', JStr ''a@b.org''), (''dOB'', JStr '''')]]"
    by code_simp
  have e: "camel = camel_case"
    by (rule ext) (rule camel_case_eq)
  have c: "case filter (\<lambda>l. l \<noteq> []) (split_lines t) of
          [] \<Rightarrow> parseCSV t = []
        | first # rest \<Rightarrow>
            (let hs = map trim (split_from comma [] first) in
             length (parseCSV t) = length rest \<and>
             (\<forall>i < length rest.
                is_object (parseCSV t ! i) \<and>
                set (own_keys (parseCSV t ! i)) = camel_case ` set hs \<and>
                (distinct (map camel_case hs) \<longrightarrow>
                   parseCSV t ! i =
                     JObj (map (\<lambda>(h, c). (camel_case h, JStr (trim c)))
                               (zip hs (pad_cells (length hs) (parse_cells (rest ! i))))))))" for t
  proof (cases "filter (\<lambda>l. l \<noteq> []) (split_lines t)")
    case Nil
    then show ?thesis by (simp add: parseCSV_def)
  next
    case (Cons first rest)
    have k: "set (own_keys (JObj (row_fields hs cs []))) = camel_case ` set hs" for hs cs
      using keys_row_fields[of hs cs "[]"] unfolding e by simp
    have d: "distinct (map camel_case hs) \<Longrightarrow> row_fields hs cs [] =
        map (\<lambda>(h, c). (camel_case h, JStr (trim c))) (zip hs (pad_cells (length hs) cs))"
      for hs cs
      using row_fields_distinct[of hs "[]" cs] unfolding e by simp
    have l: "length (parseCSV t) = length rest"
      by (simp add: Cons parseCSV_def Let_def)
    show ?thesis
      unfolding Cons list.case Let_def
      using l k d by (simp add: parseCSV_nth[OF Cons] del: own_keys.simps)
  qed
  show ?thesis using a n c parse_cells_esc camel_case_eq by blast
qed

lemma names_lines:
  "filter (\<lambda>l. l \<noteq> []) (split_lines names_csv) = [names_header, names_row]"
  by code_simp

lemma names_headers:
  "map trim (split_from comma [] names_header) =
     [''First Name'', ''last-name'', ''2nd e_mail'', ''DOB'']"
  by code_simp

lemma names_cells:
  "map trim (pad_cells 4 (parse_cells names_row)) =
     [''Ada'', ''Lovelace, Countess'', ''a@b.org'', []]"
  by code_simp

theorem parseCSV_rows_witness:
  "[''a,b'', ''x''] \<noteq> ([] :: string list) \<and>
   parse_cells (join [comma] (map esc [''a,b'', ''x''])) = [''a,b'', ''x''] \<and>
   (0::nat) < length [names_row] \<and>
   distinct (map camel_case [''First Name'', ''last-name'', ''2nd e_mail'', ''DOB'']) \<and>
   is_object (parseCSV names_csv ! 0) \<and>
   parseCSV names_csv ! 0 =
     JObj (map (\<lambda>(h, c). (camel_case h, JStr (trim c)))
            (zip [''First Name'', ''last-name'', ''2nd e_mail'', ''DOB'']
                 (pad_cells 4 (parse_cells names_row)))) \<and>
   camel ''First Name'' = ''firstName''"
proof -
  note r = parseCSV_rows [THEN conjunct2, THEN conjunct2]
  have d: "distinct (map camel_case [''First Name'', ''last-name'', ''2nd e_mail'', ''DOB''])"
    by code_simp
  have f: "parse_cells (join [comma] (map esc [''a,b'', ''x''])) = [''a,b'', ''x'']"
    using r [THEN conjunct2, THEN conjunct1, rule_format, of "[''a,b'', ''x'']"] by simp
  have t: "is_object (parseCSV names_csv ! 0) \<and>
     parseCSV names_csv ! 0 =
     JObj (map (\<lambda>(h, c). (camel_case h, JStr (trim c)))
            (zip [''First Name'', ''last-name'', ''2nd e_mail'', ''DOB'']
                 (pad_cells 4 (parse_cells names_row))))"
    using r [THEN conjunct2, THEN conjunct2, rule_format, of names_csv] d
    unfolding names_lines list.case Let_def names_headers by (simp add: eval_nat_numeral)
  have c: "camel ''First Name'' = ''firstName''"
    using r [THEN conjunct1, rule_format, of "''First Name''"] camel_case_examples by simp
  show ?thesis using f t d c by simp
qed

text \<open>The table with the one column \<open>note\<close> and the one row whose field is \<open>a\<close>, a line
  break and \<open>b\<close>, written with the quoting of \<open>toCSV\<close>: the row loop alone reads the quoted
  field back, but \<open>parseCSV\<close> has split the text at the line break before, and returns two
  records.\<close>

theorem parseCSV_line_break_counterexample:
  "note_csv = ''note'' @ [LF, quote] @ ''a'' @ [LF] @ ''b'' @ [quote] \<and>
   parse_cells (esc (''a'' @ [LF] @ ''b'')) = [''a'' @ [LF] @ ''b''] \<and>
   parseCSV note_csv = [JObj [(''note'', JStr ''a'')], JObj [(''note'', JStr ''b'')]]"
  by code_simp

end
